theory Spec2Isabelle
  imports Complex_Main "HOL-Library.AList" "HOL-Library.Sublist" "HOL-Library.List_Lexorder"
begin

section \<open>Python strings\<close>

text \<open>
  A Python \<open>str\<close> is a sequence of Unicode code points; it is modelled as a list of
  natural numbers, one per code point. Comparison of two such lists in the lexicographic
  order of \<open>List_Lexorder\<close> is Python's comparison of strings, which \<open>sorted\<close> uses.
  \<open>u\<close> turns an ASCII literal into such a string.
\<close>

type_synonym pystr = "nat list"

definition u :: "string \<Rightarrow> pystr" where
  "u s = map of_char s"

text \<open>\<open>str.isspace\<close> on one code point: the white space characters of Unicode.\<close>

definition isspace :: "nat \<Rightarrow> bool" where
  "isspace c \<longleftrightarrow>
     (9 \<le> c \<and> c \<le> 13) \<or> (28 \<le> c \<and> c \<le> 32) \<or> c = 133 \<or> c = 160 \<or> c = 5760 \<or>
     (8192 \<le> c \<and> c \<le> 8202) \<or> c = 8232 \<or> c = 8233 \<or> c = 8239 \<or> c = 8287 \<or> c = 12288"

text \<open>\<open>s.strip()\<close>: leading and trailing white space removed.\<close>

definition strip :: "pystr \<Rightarrow> pystr" where
  "strip s = rev (dropWhile isspace (rev (dropWhile isspace s)))"

text \<open>
  \<open>s.split()\<close> with no argument: skip white space, take the maximal run of other
  characters as a word, repeat; no empty word is produced.
\<close>

function split_ws :: "pystr \<Rightarrow> pystr list" where
  "split_ws s =
     (case dropWhile isspace s of
        [] \<Rightarrow> []
      | c # cs \<Rightarrow> takeWhile (\<lambda>x. \<not> isspace x) (c # cs)
                  # split_ws (dropWhile (\<lambda>x. \<not> isspace x) (c # cs)))"
  by pat_completeness auto
termination
proof (relation "measure length")
  fix s c cs
  assume a: "dropWhile isspace s = c # cs"
  have "\<not> isspace c"
    using a by (metis hd_dropWhile list.sel(1) list.distinct(1))
  then have "length (dropWhile (\<lambda>x. \<not> isspace x) (c # cs)) \<le> length cs"
    by (simp add: length_dropWhile_le)
  moreover have "length (c # cs) \<le> length s"
    using a length_dropWhile_le[of isspace s] by simp
  ultimately show "(dropWhile (\<lambda>x. \<not> isspace x) (c # cs), s) \<in> measure length"
    by simp
qed simp

declare split_ws.simps [simp del]

text \<open>\<open>sep.join(xs)\<close>.\<close>

fun join :: "pystr \<Rightarrow> pystr list \<Rightarrow> pystr" where
  "join sep [] = []"
| "join sep [x] = x"
| "join sep (x # y # ys) = x @ sep @ join sep (y # ys)"

text \<open>
  \<open>s.replace(old, new)\<close>: every non-overlapping occurrence of \<open>old\<close>, found from the
  left, is replaced. \<open>skip\<close> counts the characters of an occurrence still to be
  passed over. (With an empty \<open>old\<close> Python puts \<open>new\<close> around every character.)
\<close>

fun replace_scan :: "pystr \<Rightarrow> pystr \<Rightarrow> nat \<Rightarrow> pystr \<Rightarrow> pystr" where
  "replace_scan old new skip [] = []"
| "replace_scan old new skip (c # cs) =
     (if 0 < skip then replace_scan old new (skip - 1) cs
      else if prefix old (c # cs) then new @ replace_scan old new (length old - 1) cs
      else c # replace_scan old new 0 cs)"

definition replace :: "pystr \<Rightarrow> pystr \<Rightarrow> pystr \<Rightarrow> pystr" where
  "replace s old new =
     (if old = [] then new @ concat (map (\<lambda>c. c # new) s)
      else replace_scan old new 0 s)"

text \<open>\<open>str(n)\<close> for a non-negative integer, and the format \<open>{n:03d}\<close>: the decimal
  digits, padded with zeros on the left to a width of at least three.\<close>

function str_nat :: "nat \<Rightarrow> pystr" where
  "str_nat n = (if n < 10 then [48 + n] else str_nat (n div 10) @ [48 + n mod 10])"
  by pat_completeness auto
termination
  by (relation "measure id") auto

declare str_nat.simps [simp del]

definition fmt03d :: "nat \<Rightarrow> pystr" where
  "fmt03d n = replicate (3 - length (str_nat n)) 48 @ str_nat n"

text \<open>\<open>range(0, n, step)\<close> for a positive step; its length is \<open>(n + step - 1) // step\<close>.\<close>

definition range_step :: "nat \<Rightarrow> nat \<Rightarrow> nat list" where
  "range_step n step = map (\<lambda>k. k * step) [0 ..< (n + step - 1) div step]"

section \<open>Results of calls that may raise\<close>

text \<open>A call returns a value or raises an exception; the exception carries its message.\<close>

datatype 'a result = Return 'a | Raise pystr

section \<open>The text chunker\<close>

text \<open>
  \<open>BatchProcessor.split_text_into_chunks\<close>. The generator is modelled by the list of
  the values it yields. A step of zero makes \<open>range\<close> raise \<open>ValueError\<close>.
\<close>

definition split_text_into_chunks :: "pystr \<Rightarrow> nat \<Rightarrow> pystr list result" where
  "split_text_into_chunks text words_per_chunk =
     (let words = split_ws text in
      if words_per_chunk = 0 then Raise (u ''range() arg 3 must not be zero'')
      else Return (map (\<lambda>i. join (u '' '') (take words_per_chunk (drop i words)))
                       (range_step (length words) words_per_chunk)))"

section \<open>The processor, the disk and the collaborators\<close>

text \<open>
  A pydub \<open>AudioSegment\<close> is indexed in milliseconds: \<open>len\<close> is its duration in ms and
  \<open>audio[a:b]\<close> is the span from ms \<open>a\<close> to ms \<open>b\<close>. It is modelled by its channel
  count, its frame rate and one abstract sample per millisecond of sound.
\<close>

record audio =
  channels :: nat
  frame_rate :: nat
  samples :: "nat list"

text \<open>
  The trace records which calls a run makes: the entry of each stage, and each call of
  a collaborator (\<open>_transcribe_file\<close>, \<open>_summarize_text_chunk\<close>) with the index of
  the unit it is made for and its argument. It corresponds to no variable of the
  program; it is kept so that "is (not) invoked" can be stated.
\<close>

datatype event =
    Enter_process_audio_batches
  | Enter_process_summary_batches
  | Call_transcribe_file nat pystr
  | Call_summarize_text_chunk nat pystr

text \<open>
  The fields of a \<open>BatchProcessor\<close> together with the disk it works on. The progress
  fields are Python floats; they are modelled by rationals. \<open>stop_event\<close> is the
  \<open>threading.Event\<close>. \<open>files\<close> maps the path of each text file to its content and
  \<open>sounds\<close> the path of each audio file to its audio; only regular files are
  modelled, and every directory the program uses is taken to exist.
\<close>

record world =
  transcription_progress :: rat
  summarization_progress :: rat
  status_message :: pystr
  is_running :: bool
  stop_event :: bool
  files :: "(pystr \<times> pystr) list"
  sounds :: "(pystr \<times> audio) list"
  trace :: "event list"

text \<open>What \<open>subprocess.run\<close> does: the process exits with a return code and an output,
  or the call raises \<open>FileNotFoundError\<close> (no such binary), or another exception.\<close>

datatype proc_outcome = Exited int pystr | File_not_found | Other_exception pystr

text \<open>
  Everything outside the program: \<open>effects.normalize\<close> (\<open>None\<close> when it raises),
  the export of an audio file (\<open>Some m\<close> when it raises with message \<open>m\<close>), whether
  \<open>RealtimeSTT\<close> can be imported, the two subprocesses, and the other thread that may
  call \<open>stop()\<close>: \<open>stop_before_chunk e i\<close> says that such a call arrives after the
  previous look at the stop flag and before the look made for unit \<open>i\<close> of the
  transcription loop, \<open>stop_before_part e i\<close> the same for the summarization loop.
\<close>

record env =
  normalize_effect :: "audio \<Rightarrow> audio option"
  export_error :: "pystr \<Rightarrow> pystr option"
  realtime_stt_installed :: bool
  transcribe_worker :: "pystr \<Rightarrow> proc_outcome"
  ollama :: "pystr \<Rightarrow> proc_outcome"
  stop_before_chunk :: "nat \<Rightarrow> bool"
  stop_before_part :: "nat \<Rightarrow> bool"

subsection \<open>Constants of \<open>batch_processor.py\<close> and \<open>app.py\<close>, and the file system calls\<close>

text \<open>\<open>os.path.join\<close> of two components (POSIX).\<close>

definition path_join :: "pystr \<Rightarrow> pystr \<Rightarrow> pystr" where
  "path_join a b =
     (if prefix [47] b then b
      else if a = [] \<or> last a = 47 then a @ b
      else a @ [47] @ b)"

definition TRANSCRIPT_DIR :: pystr where "TRANSCRIPT_DIR = u ''transcripts''"
definition SUMMARY_DIR :: pystr where "SUMMARY_DIR = u ''summaries''"
definition NOTES_DIR :: pystr where "NOTES_DIR = u ''notes''"
definition FINAL_NOTES_FILE :: pystr where
  "FINAL_NOTES_FILE = path_join NOTES_DIR (u ''final_notes.txt'')"
definition LECTURE_CLEAN_FILE :: pystr where "LECTURE_CLEAN_FILE = u ''lecture_clean.txt''"
definition RECORDING_FILE :: pystr where "RECORDING_FILE = u ''recording.wav''"
definition AUDIO_CHUNKS_DIR :: pystr where "AUDIO_CHUNKS_DIR = u ''audio_chunks''"

text \<open>\<open>os.listdir(d)\<close>: the names of the files directly in directory \<open>d\<close>.\<close>

definition listdir :: "(pystr \<times> 'a) list \<Rightarrow> pystr \<Rightarrow> pystr list" where
  "listdir fs d =
     remdups [drop (Suc (length d)) p. p \<leftarrow> map fst fs,
              take (Suc (length d)) p = d @ [47],
              drop (Suc (length d)) p \<noteq> [],
              47 \<notin> set (drop (Suc (length d)) p)]"

text \<open>\<open>os.path.exists(p) and os.path.getsize(p) > 0\<close>.\<close>

definition nonempty_file :: "(pystr \<times> pystr) list \<Rightarrow> pystr \<Rightarrow> bool" where
  "nonempty_file fs p = (case map_of fs p of None \<Rightarrow> False | Some c \<Rightarrow> c \<noteq> [])"

text \<open>\<open>with open(p, "w") as f: f.write(c)\<close>, and \<open>os.remove(p)\<close>. A write of a text
  file is taken to succeed.\<close>

definition write_text :: "pystr \<Rightarrow> pystr \<Rightarrow> world \<Rightarrow> world" where
  "write_text p c w = w\<lparr>files := AList.update p c (files w)\<rparr>"

definition os_remove :: "pystr \<Rightarrow> world \<Rightarrow> world" where
  "os_remove p w = w\<lparr>files := AList.delete p (files w)\<rparr>"

definition log_event :: "event \<Rightarrow> world \<Rightarrow> world" where
  "log_event ev w = w\<lparr>trace := trace w @ [ev]\<rparr>"

text \<open>\<open>BatchProcessor.__init__\<close>, on a given disk.\<close>

definition new_processor :: "(pystr \<times> pystr) list \<Rightarrow> (pystr \<times> audio) list \<Rightarrow> world" where
  "new_processor fs snd_fs =
     \<lparr>transcription_progress = 0, summarization_progress = 0, status_message = u ''Idle'',
      is_running = False, stop_event = False, files = fs, sounds = snd_fs, trace = []\<rparr>"

text \<open>\<open>BatchProcessor.stop\<close>.\<close>

definition stop :: "world \<Rightarrow> world" where
  "stop w = w\<lparr>stop_event := True\<rparr>"

section \<open>The chunk splitter (\<open>audio_chunker.py\<close>)\<close>

definition slice_ms :: "audio \<Rightarrow> nat \<Rightarrow> nat \<Rightarrow> audio" where
  "slice_ms a start_ms end_ms = a\<lparr>samples := take (end_ms - start_ms) (drop start_ms (samples a))\<rparr>"

text \<open>The \<open>for i in range(num_chunks)\<close> loop of \<open>split_audio\<close>, over the indices left.\<close>

fun export_chunks ::
  "env \<Rightarrow> pystr \<Rightarrow> audio \<Rightarrow> nat \<Rightarrow> nat \<Rightarrow> nat list \<Rightarrow> pystr list \<Rightarrow> world
   \<Rightarrow> pystr list result \<times> world" where
  "export_chunks e output_dir a chunk_length_ms total_length_ms [] chunk_paths w =
     (Return chunk_paths, w)"
| "export_chunks e output_dir a chunk_length_ms total_length_ms (i # rest) chunk_paths w =
     (let start_ms = i * chunk_length_ms;
          end_ms = min ((i + 1) * chunk_length_ms) total_length_ms;
          chunk = slice_ms a start_ms end_ms;
          chunk_filename = u ''chunk_'' @ fmt03d i @ u ''.wav'';
          chunk_path = path_join output_dir chunk_filename
      in case export_error e chunk_path of
           Some m \<Rightarrow> (Raise m, w)
         | None \<Rightarrow>
             export_chunks e output_dir a chunk_length_ms total_length_ms rest
               (chunk_paths @ [chunk_path])
               (w\<lparr>sounds := AList.update chunk_path
                                (chunk\<lparr>channels := 1, frame_rate := 16000\<rparr>) (sounds w)\<rparr>))"

text \<open>
  \<open>AudioChunker.split_audio\<close>. A file that cannot be loaded gives the empty list.
  \<open>math.ceil(total_length_ms / chunk_length_ms)\<close> is the ceiling of the exact quotient
  (the float division of the source is exact enough for every duration below \<open>2^52\<close> ms).
\<close>

definition split_audio ::
  "env \<Rightarrow> pystr \<Rightarrow> pystr \<Rightarrow> nat \<Rightarrow> world \<Rightarrow> pystr list result \<times> world" where
  "split_audio e output_dir file_path chunk_length_ms w =
     (case map_of (sounds w) file_path of
        None \<Rightarrow> (Return [], w)
      | Some loaded \<Rightarrow>
          (let a = loaded\<lparr>channels := 1\<rparr>;
               total_length_ms = length (samples a)
           in if chunk_length_ms = 0 then (Raise (u ''division by zero''), w)
              else
                (let num_chunks = nat \<lceil>rat_of_nat total_length_ms / rat_of_nat chunk_length_ms\<rceil>
                 in export_chunks e output_dir a chunk_length_ms total_length_ms
                      [0 ..< num_chunks] [] w)))"

section \<open>The stages (\<open>batch_processor.py\<close>)\<close>




text \<open>The loop shared by \<open>merge_transcripts\<close> and \<open>compile_final_notes\<close>: read each
  file in turn and append its content and a separator.\<close>

fun read_concat :: "(pystr \<times> pystr) list \<Rightarrow> pystr \<Rightarrow> pystr list \<Rightarrow> pystr \<Rightarrow> pystr result" where
  "read_concat fs sep [] acc = Return acc"
| "read_concat fs sep (f # rest) acc =
     (case map_of fs f of
        None \<Rightarrow> Raise (u ''No such file or directory'')
      | Some txt \<Rightarrow> read_concat fs sep rest (acc @ txt @ sep))"

definition merge_transcripts :: "world \<Rightarrow> unit result \<times> world" where
  "merge_transcripts w =
     (let fls = sort [path_join TRANSCRIPT_DIR f.
                      f \<leftarrow> listdir (files w) TRANSCRIPT_DIR, prefix (u ''batch_'') f]
      in case read_concat (files w) (u '' '') fls [] of
           Raise m \<Rightarrow> (Raise m, w)
         | Return full_text \<Rightarrow> (Return (), write_text LECTURE_CLEAN_FILE (strip full_text) w))"

definition compile_final_notes :: "world \<Rightarrow> unit result \<times> world" where
  "compile_final_notes w =
     (let fls = sort [path_join SUMMARY_DIR f.
                      f \<leftarrow> listdir (files w) SUMMARY_DIR, prefix (u ''summary_'') f]
      in case read_concat (files w) [10, 10] fls (u ''# Final Lecture Notes'' @ [10, 10]) of
           Raise m \<Rightarrow> (Raise m, w)
         | Return full_notes \<Rightarrow> (Return (), write_text FINAL_NOTES_FILE full_notes w))"

text \<open>\<open>BatchProcessor._transcribe_file\<close>: it touches neither the processor nor the
  text files, and never raises; every failure of the subprocess gives the empty string.\<close>

definition transcribe_file :: "env \<Rightarrow> pystr \<Rightarrow> pystr" where
  "transcribe_file e file_path =
     (if \<not> realtime_stt_installed e then u ''[Error: RealtimeSTT not found]''
      else
        (case transcribe_worker e file_path of
           Exited returncode out \<Rightarrow> if returncode = 0 then strip out else []
         | File_not_found \<Rightarrow> []
         | Other_exception m \<Rightarrow> []))"

text \<open>\<open>BatchProcessor._summarize_text_chunk\<close>: only \<open>FileNotFoundError\<close> is caught.\<close>

definition summarize_text_chunk :: "env \<Rightarrow> pystr \<Rightarrow> pystr result" where
  "summarize_text_chunk e text =
     (let prompt = u ''Summarize the following text into concise bullet points:'' @ [10, 10] @ text
      in case ollama e prompt of
           Exited returncode out \<Rightarrow> Return (strip out)
         | File_not_found \<Rightarrow> Return (u ''[Error: Ollama not found]'')
         | Other_exception m \<Rightarrow> Raise m)"

definition transcript_file :: "nat \<Rightarrow> pystr" where
  "transcript_file i = path_join TRANSCRIPT_DIR (u ''batch_'' @ fmt03d i @ u ''.txt'')"

definition summary_file :: "nat \<Rightarrow> pystr" where
  "summary_file i = path_join SUMMARY_DIR (u ''summary_'' @ fmt03d i @ u ''.txt'')"

text \<open>The \<open>for i, chunk_path in enumerate(chunks)\<close> loop of \<open>process_audio_batches\<close>,
  from index \<open>i\<close> on. A \<open>stop()\<close> of the other thread takes effect first.\<close>

fun transcribe_loop :: "env \<Rightarrow> nat \<Rightarrow> nat \<Rightarrow> pystr list \<Rightarrow> world \<Rightarrow> world" where
  "transcribe_loop e total_chunks i [] w = w"
| "transcribe_loop e total_chunks i (chunk_path # rest) w =
     (let w0 = (if stop_before_chunk e i then stop w else w)
      in if stop_event w0 then w0
         else
           (let w1 = w0\<lparr>status_message :=
                        u ''Transcribing batch '' @ str_nat (i + 1) @ u ''/''
                          @ str_nat total_chunks @ u ''...''\<rparr>;
                w2 = (if nonempty_file (files w1) (transcript_file i) then w1
                      else (let text = transcribe_file e chunk_path
                            in write_text (transcript_file i) text
                                 (log_event (Call_transcribe_file i chunk_path) w1)));
                w3 = w2\<lparr>transcription_progress :=
                        2 / 10 + (8 / 10 * rat_of_nat (i + 1) / rat_of_nat total_chunks)\<rparr>
            in transcribe_loop e total_chunks (i + 1) rest w3))"

text \<open>The \<open>try\<close> block at the head of \<open>process_audio_batches\<close>: the path of the audio to
  chunk, the normalized copy when all of it worked and the source file otherwise.\<close>

definition normalize_step :: "env \<Rightarrow> pystr \<Rightarrow> world \<Rightarrow> pystr \<times> world" where
  "normalize_step e audio_file_path w =
     (case map_of (sounds w) audio_file_path of
        None \<Rightarrow> (audio_file_path, w)
      | Some raw_audio \<Rightarrow>
          (case normalize_effect e raw_audio of
             None \<Rightarrow> (audio_file_path, w)
           | Some normalized_audio \<Rightarrow>
               (let normalized_path = replace audio_file_path (u ''.wav'') (u ''_norm.wav'')
                in case export_error e normalized_path of
                     Some m \<Rightarrow> (audio_file_path, w)
                   | None \<Rightarrow>
                       (normalized_path,
                        w\<lparr>sounds := AList.update normalized_path normalized_audio (sounds w)\<rparr>))))"

definition process_audio_batches :: "env \<Rightarrow> pystr \<Rightarrow> world \<Rightarrow> bool result \<times> world" where
  "process_audio_batches e audio_file_path w =
     (let w0 = log_event Enter_process_audio_batches w;
          w1 = w0\<lparr>status_message := u ''Chunking audio...'', transcription_progress := 1 / 10\<rparr>;
          w2 = w1\<lparr>status_message := u ''Normalizing audio...''\<rparr>;
          (audio_for_chunking, w3) = normalize_step e audio_file_path w2
      in case split_audio e AUDIO_CHUNKS_DIR audio_for_chunking 30000 w3 of
           (Raise m, w4) \<Rightarrow> (Raise m, w4)
         | (Return chunks, w4) \<Rightarrow>
             if chunks = [] then (Return False, w4\<lparr>status_message := u ''Audio chunking failed.''\<rparr>)
             else
               (let total_chunks = length chunks;
                    w5 = w4\<lparr>transcription_progress := 2 / 10\<rparr>;
                    w6 = transcribe_loop e total_chunks 0 chunks w5;
                    w7 = w6\<lparr>status_message := u ''Merging transcripts...''\<rparr>
                in case merge_transcripts w7 of
                     (Raise m, w8) \<Rightarrow> (Raise m, w8)
                   | (Return _, w8) \<Rightarrow> (Return True, w8\<lparr>transcription_progress := 1\<rparr>)))"

text \<open>The \<open>for i, chunk in enumerate(chunks)\<close> loop of \<open>process_summary_batches\<close>.\<close>

fun summarize_loop :: "env \<Rightarrow> nat \<Rightarrow> nat \<Rightarrow> pystr list \<Rightarrow> world \<Rightarrow> unit result \<times> world" where
  "summarize_loop e total_chunks i [] w = (Return (), w)"
| "summarize_loop e total_chunks i (chunk # rest) w =
     (let w0 = (if stop_before_part e i then stop w else w)
      in if stop_event w0 then (Return (), w0)
         else
           (let w1 = w0\<lparr>status_message :=
                        u ''Summarizing part '' @ str_nat (i + 1) @ u ''/''
                          @ str_nat total_chunks @ u ''...''\<rparr>
            in if nonempty_file (files w1) (summary_file i)
               then summarize_loop e total_chunks (i + 1) rest
                      (w1\<lparr>summarization_progress := rat_of_nat (i + 1) / rat_of_nat total_chunks\<rparr>)
               else
                 (case summarize_text_chunk e chunk of
                    Raise m \<Rightarrow> (Raise m, log_event (Call_summarize_text_chunk i chunk) w1)
                  | Return summary \<Rightarrow>
                      summarize_loop e total_chunks (i + 1) rest
                        ((write_text (summary_file i) summary
                            (log_event (Call_summarize_text_chunk i chunk) w1))
                           \<lparr>summarization_progress :=
                              rat_of_nat (i + 1) / rat_of_nat total_chunks\<rparr>))))"

definition process_summary_batches :: "env \<Rightarrow> world \<Rightarrow> bool result \<times> world" where
  "process_summary_batches e w =
     (let w0 = log_event Enter_process_summary_batches w;
          w1 = w0\<lparr>status_message := u ''Preparing text for summary...'',
                  summarization_progress := 0\<rparr>
      in case map_of (files w1) LECTURE_CLEAN_FILE of
           None \<Rightarrow> (Return False, w1\<lparr>status_message := u ''No transcript found.''\<rparr>)
         | Some text \<Rightarrow>
             (case split_text_into_chunks text 500 of
                Raise m \<Rightarrow> (Raise m, w1)
              | Return chunks \<Rightarrow>
                  (let total_chunks = length chunks
                   in if total_chunks = 0
                      then (Return False, w1\<lparr>status_message := u ''Text is empty.''\<rparr>)
                      else
                        (case summarize_loop e total_chunks 0 chunks w1 of
                           (Raise m, w2) \<Rightarrow> (Raise m, w2)
                         | (Return _, w2) \<Rightarrow>
                             (case compile_final_notes
                                     (w2\<lparr>status_message := u ''Compiling final notes...''\<rparr>) of
                                (Raise m, w3) \<Rightarrow> (Raise m, w3)
                              | (Return _, w3) \<Rightarrow>
                                  (Return True, w3\<lparr>summarization_progress := 1\<rparr>))))))"

section \<open>The pipeline (\<open>app.py\<close>)\<close>

text \<open>\<open>run_pipeline\<close>: \<open>try\<close> / \<open>except Exception\<close> / \<open>finally\<close>.\<close>

definition run_pipeline :: "env \<Rightarrow> world \<Rightarrow> world" where
  "run_pipeline e w =
     (let w' =
        (case process_audio_batches e RECORDING_FILE w of
           (Raise m, w1) \<Rightarrow> w1\<lparr>status_message := u ''Error: '' @ m\<rparr>
         | (Return success_stt, w1) \<Rightarrow>
             if success_stt
             then (case process_summary_batches e w1 of
                     (Raise m, w2) \<Rightarrow> w2\<lparr>status_message := u ''Error: '' @ m\<rparr>
                   | (Return _, w2) \<Rightarrow> w2)
             else w1)
      in w'\<lparr>is_running := False\<rparr>)"

text \<open>The handler of the "Start Batch Processing" button: the flag is set, then the
  pipeline runs (in the program, on a thread of its own).\<close>

definition start_batch_processing :: "env \<Rightarrow> world \<Rightarrow> world" where
  "start_batch_processing e w = run_pipeline e (w\<lparr>is_running := True\<rparr>)"

section \<open>Notions used to state the properties\<close>

text \<open>The list \<open>ws\<close> cut into consecutive runs of \<open>S\<close> elements, as the chunker cuts
  the list of words.\<close>

definition groups :: "nat \<Rightarrow> 'a list \<Rightarrow> 'a list list" where
  "groups S ws = map (\<lambda>i. take S (drop i ws)) (range_step (length ws) S)"




text \<open>The number that a string of decimal digits denotes.\<close>

definition digits_value :: "pystr \<Rightarrow> nat" where
  "digits_value ds = foldl (\<lambda>a d. 10 * a + (d - 48)) 0 ds"

text \<open>The path \<open>split_audio\<close> gives chunk \<open>i\<close>, and the audio it exports there: the span
  from \<open>i * C\<close> to \<open>min ((i + 1) * C) (len audio)\<close>, mono, at 16 kHz.\<close>

definition chunk_file :: "pystr \<Rightarrow> nat \<Rightarrow> pystr" where
  "chunk_file output_dir i = path_join output_dir (u ''chunk_'' @ fmt03d i @ u ''.wav'')"

definition chunk_of :: "audio \<Rightarrow> nat \<Rightarrow> nat \<Rightarrow> audio" where
  "chunk_of a C i =
     (slice_ms a (i * C) (min ((i + 1) * C) (length (samples a))))
       \<lparr>channels := 1, frame_rate := 16000\<rparr>"

section \<open>The parts of the stages\<close>

text \<open>One pass through the body of the transcription loop, after the look at the stop
  flag; and the same for the summarization loop, where the collaborator may raise.\<close>

definition transcribe_unit :: "env \<Rightarrow> nat \<Rightarrow> nat \<Rightarrow> pystr \<Rightarrow> world \<Rightarrow> world" where
  "transcribe_unit e total_chunks i chunk_path w0 =
     (let w1 = w0\<lparr>status_message :=
                  u ''Transcribing batch '' @ str_nat (i + 1) @ u ''/''
                    @ str_nat total_chunks @ u ''...''\<rparr>;
          w2 = (if nonempty_file (files w1) (transcript_file i) then w1
                else (let text = transcribe_file e chunk_path
                      in write_text (transcript_file i) text
                           (log_event (Call_transcribe_file i chunk_path) w1)))
      in w2\<lparr>transcription_progress :=
              2 / 10 + (8 / 10 * rat_of_nat (i + 1) / rat_of_nat total_chunks)\<rparr>)"

text \<open>The stop flag is found set at the look made for unit \<open>k\<close>, in a loop that starts
  at unit \<open>i\<close> in world \<open>w\<close>: it was set in \<open>w\<close>, or a \<open>stop()\<close> arrives before one of
  the looks \<open>i, \<dots>, k\<close>.\<close>

definition stop_seen :: "(nat \<Rightarrow> bool) \<Rightarrow> world \<Rightarrow> nat \<Rightarrow> nat \<Rightarrow> bool" where
  "stop_seen req w i k \<longleftrightarrow> stop_event w \<or> (\<exists>j. i \<le> j \<and> j \<le> k \<and> req j)"

text \<open>The events a run adds to the trace.\<close>

definition new_events :: "world \<Rightarrow> world \<Rightarrow> event list" where
  "new_events w w' = drop (length (trace w)) (trace w')"

definition summarize_unit :: "env \<Rightarrow> nat \<Rightarrow> nat \<Rightarrow> pystr \<Rightarrow> world \<Rightarrow> unit result \<times> world" where
  "summarize_unit e total_chunks i chunk w0 =
     (let w1 = w0\<lparr>status_message :=
                  u ''Summarizing part '' @ str_nat (i + 1) @ u ''/''
                    @ str_nat total_chunks @ u ''...''\<rparr>
      in if nonempty_file (files w1) (summary_file i)
         then (Return (),
               w1\<lparr>summarization_progress := rat_of_nat (i + 1) / rat_of_nat total_chunks\<rparr>)
         else
           (case summarize_text_chunk e chunk of
              Raise m \<Rightarrow> (Raise m, log_event (Call_summarize_text_chunk i chunk) w1)
            | Return summary \<Rightarrow>
                (Return (),
                 (write_text (summary_file i) summary
                    (log_event (Call_summarize_text_chunk i chunk) w1))
                   \<lparr>summarization_progress := rat_of_nat (i + 1) / rat_of_nat total_chunks\<rparr>)))"

text \<open>The files the merger reads, in the order it reads them, and the text it writes;
  the same for the compiler.\<close>

definition transcript_paths :: "(pystr \<times> pystr) list \<Rightarrow> pystr list" where
  "transcript_paths fs =
     sort [path_join TRANSCRIPT_DIR f. f \<leftarrow> listdir fs TRANSCRIPT_DIR, prefix (u ''batch_'') f]"

definition merged_text :: "(pystr \<times> pystr) list \<Rightarrow> pystr" where
  "merged_text fs = strip (concat (map (\<lambda>f. the (map_of fs f) @ u '' '') (transcript_paths fs)))"

definition summary_paths :: "(pystr \<times> pystr) list \<Rightarrow> pystr list" where
  "summary_paths fs =
     sort [path_join SUMMARY_DIR f. f \<leftarrow> listdir fs SUMMARY_DIR, prefix (u ''summary_'') f]"

definition notes_text :: "(pystr \<times> pystr) list \<Rightarrow> pystr" where
  "notes_text fs =
     u ''# Final Lecture Notes'' @ [10, 10]
       @ concat (map (\<lambda>f. the (map_of fs f) @ [10, 10]) (summary_paths fs))"

text \<open>Path \<open>p\<close> begins with directory \<open>d\<close> and a separator.\<close>

definition in_dir :: "pystr \<Rightarrow> pystr \<Rightarrow> bool" where
  "in_dir d p \<longleftrightarrow> take (Suc (length d)) p = d @ [47]"

text \<open>The parts of the two stage functions around their loops: the head of
  \<open>process_audio_batches\<close> up to the return of the chunker, the merge that ends it,
  the head of \<open>process_summary_batches\<close>, and the compilation that ends it.\<close>

definition chunk_audio :: "env \<Rightarrow> pystr \<Rightarrow> world \<Rightarrow> pystr list result \<times> world" where
  "chunk_audio e audio_file_path w =
     (let w0 = log_event Enter_process_audio_batches w;
          w1 = w0\<lparr>status_message := u ''Chunking audio...'', transcription_progress := 1 / 10\<rparr>;
          w2 = w1\<lparr>status_message := u ''Normalizing audio...''\<rparr>;
          (audio_for_chunking, w3) = normalize_step e audio_file_path w2
      in split_audio e AUDIO_CHUNKS_DIR audio_for_chunking 30000 w3)"

definition finish_transcription :: "world \<Rightarrow> world" where
  "finish_transcription w6 =
     (write_text LECTURE_CLEAN_FILE (merged_text (files w6))
        (w6\<lparr>status_message := u ''Merging transcripts...''\<rparr>))\<lparr>transcription_progress := 1\<rparr>"

definition begin_summary :: "world \<Rightarrow> world" where
  "begin_summary w =
     (log_event Enter_process_summary_batches w)
       \<lparr>status_message := u ''Preparing text for summary...'', summarization_progress := 0\<rparr>"

definition finish_summary :: "world \<Rightarrow> world" where
  "finish_summary w2 =
     (write_text FINAL_NOTES_FILE (notes_text (files w2))
        (w2\<lparr>status_message := u ''Compiling final notes...''\<rparr>))\<lparr>summarization_progress := 1\<rparr>"

definition enter_transcription :: "world \<Rightarrow> world" where
  "enter_transcription w =
     (log_event Enter_process_audio_batches w)
       \<lparr>status_message := u ''Chunking audio...'', transcription_progress := 1 / 10,
        status_message := u ''Normalizing audio...''\<rparr>"

section \<open>Concrete collaborators and disks for the examples\<close>

text \<open>Collaborators that all succeed, and nobody calls \<open>stop()\<close>.\<close>

definition quiet_env :: env where
  "quiet_env =
     \<lparr>normalize_effect = Some, export_error = (\<lambda>p. None), realtime_stt_installed = True,
      transcribe_worker = (\<lambda>p. Exited 0 (u ''some words'')),
      ollama = (\<lambda>p. Exited 0 (u ''- a point'')),
      stop_before_chunk = (\<lambda>i. False), stop_before_part = (\<lambda>i. False)\<rparr>"

text \<open>A recording of seven milliseconds on an otherwise empty disk.\<close>

definition seven_ms_audio :: audio where
  "seven_ms_audio = \<lparr>channels = 2, frame_rate = 44100, samples = [1, 2, 3, 4, 5, 6, 7]\<rparr>"

definition seven_ms_world :: world where
  "seven_ms_world = new_processor [] [(RECORDING_FILE, seven_ms_audio)]"

text \<open>A recording of 150 seconds, which gives five chunks, on a disk where transcript unit 2
  and summary unit 2 are there already, and a merged transcript of two words.\<close>

definition long_audio :: audio where
  "long_audio = \<lparr>channels = 2, frame_rate = 44100, samples = replicate 150000 0\<rparr>"

definition recovery_world :: world where
  "recovery_world =
     new_processor
       [(transcript_file 2, u ''X''), (summary_file 2, u ''S''),
        (LECTURE_CLEAN_FILE, u ''hello world'')]
       [(RECORDING_FILE, long_audio)]"

text \<open>Collaborators that succeed while another thread calls \<open>stop()\<close>: before the look
  for chunk 3, and before the first look of either loop. A disk with the long recording,
  a merged transcript and no unit file.\<close>

definition stop3_env :: env where
  "stop3_env = quiet_env\<lparr>stop_before_chunk := (\<lambda>i. i = 3)\<rparr>"

definition stop0_env :: env where
  "stop0_env = quiet_env\<lparr>stop_before_chunk := (\<lambda>i. i = 0), stop_before_part := (\<lambda>i. i = 0)\<rparr>"

definition five_chunk_world :: world where
  "five_chunk_world =
     new_processor [(LECTURE_CLEAN_FILE, u ''hello world'')] [(RECORDING_FILE, long_audio)]"


text \<open>Collaborators of which one raises: every export of audio, resp. the start of the
  summarization subprocess (with an error other than \<open>FileNotFoundError\<close>).\<close>

definition disk_full_env :: env where
  "disk_full_env = quiet_env\<lparr>export_error := (\<lambda>p. Some (u ''disk full''))\<rparr>"

definition ollama_crash_env :: env where
  "ollama_crash_env = quiet_env\<lparr>ollama := (\<lambda>p. Other_exception (u ''permission denied''))\<rparr>"


text \<open>The prompt \<open>_summarize_text_chunk\<close> sends for a text.\<close>

definition summary_prompt :: "pystr \<Rightarrow> pystr" where
  "summary_prompt text =
     u ''Summarize the following text into concise bullet points:'' @ [10, 10] @ text"

text \<open>Collaborators of which one fails softly: the transcription subprocess exits with
  code 1, resp. the summarization binary is absent; and the worlds after a run of the
  stage with each.\<close>

definition failing_worker_env :: env where
  "failing_worker_env = quiet_env\<lparr>transcribe_worker := (\<lambda>p. Exited 1 (u ''boom''))\<rparr>"

definition no_ollama_env :: env where
  "no_ollama_env = quiet_env\<lparr>ollama := (\<lambda>p. File_not_found)\<rparr>"

definition after_failed_transcription :: world where
  "after_failed_transcription =
     snd (process_audio_batches failing_worker_env RECORDING_FILE seven_ms_world)"

definition after_missing_ollama :: world where
  "after_missing_ollama = snd (process_summary_batches no_ollama_env five_chunk_world)"

text \<open>A transcript directory that holds the units 100, 101 and 1000 of a long lecture.\<close>

definition long_lecture_world :: world where
  "long_lecture_world =
     new_processor
       [(transcript_file 100, u ''a''), (transcript_file 101, u ''b''),
        (transcript_file 1000, u ''c'')] []"

section \<open>The text chunker: segments and round trip\<close>

lemma ceil_div_nat:
  assumes "0 < S"
  shows "nat \<lceil>(of_nat n :: rat) / of_nat S\<rceil> = (n + S - 1) div S"
proof -
  define q where "q = (n + S - 1) div S"
  define r where "r = (n + S - 1) mod S"
  have eq: "q * S + r = n + S - 1" unfolding q_def r_def by simp
  have rlt: "r < S" unfolding r_def using assms by simp
  have a: "n \<le> q * S" using eq rlt by arith
  have b: "q * S < n + S" using eq assms by arith
  have S0: "(0::rat) < of_nat S" using assms by simp
  have "(of_nat n :: rat) \<le> of_nat (q * S)" using a by (simp only: of_nat_le_iff)
  then have le: "(of_nat n :: rat) / of_nat S \<le> of_int (int q)"
    using S0 by (simp add: pos_divide_le_eq)
  have "(of_nat (q * S) :: rat) < of_nat (n + S)" using b by (simp only: of_nat_less_iff)
  then have "(of_nat q - 1) * (of_nat S :: rat) < of_nat n"
    by (simp add: algebra_simps)
  then have lt: "of_int (int q) - 1 < (of_nat n :: rat) / of_nat S"
    using S0 by (simp add: pos_less_divide_eq)
  have "\<lceil>(of_nat n :: rat) / of_nat S\<rceil> = int q"
    using lt le by (rule ceiling_unique)
  then show ?thesis by (simp add: q_def)
qed


lemma groups_Nil: "0 < S \<Longrightarrow> groups S [] = []"
  by (simp add: groups_def range_step_def)

lemma count_step:
  assumes "0 < S" "0 < n"
  shows "(n + S - 1) div S = Suc ((n - S + S - 1) div S)"
proof -
  have "n + S - 1 = (n - 1) + S" using assms by simp
  then have e: "(n + S - 1) div S = Suc ((n - 1) div S)"
    using assms by (simp only: div_add_self2)
  show ?thesis
  proof (cases "S \<le> n")
    case True
    then show ?thesis using e by simp
  next
    case False
    then show ?thesis using e assms by simp
  qed
qed

lemma groups_unfold:
  assumes "0 < S" "ws \<noteq> []"
  shows "groups S ws = take S ws # groups S (drop S ws)"
proof -
  let ?n = "length ws"
  have n: "0 < ?n" using assms by simp
  have c: "(?n + S - 1) div S = Suc ((?n - S + S - 1) div S)"
    using count_step[OF assms(1) n] .
  have up: "[0 ..< Suc m] = 0 # map Suc [0 ..< m]" for m
    by (simp add: upt_conv_Cons map_Suc_upt del: upt_Suc)
  show ?thesis
    unfolding groups_def range_step_def length_drop c up
    by (simp add: o_def add.commute)
qed

lemma concat_groups: "0 < S \<Longrightarrow> concat (groups S ws) = ws"
proof (induction "length ws" arbitrary: ws rule: less_induct)
  case less
  show ?case
  proof (cases "ws = []")
    case True
    then show ?thesis using less.prems by (simp add: groups_Nil)
  next
    case False
    then have "length (drop S ws) < length ws" using less.prems by simp
    then have "concat (groups S (drop S ws)) = drop S ws"
      using less.hyps less.prems by blast
    then show ?thesis
      using groups_unfold[OF less.prems False] by simp
  qed
qed

























lemma rstrip_spaces:
  "\<forall>x \<in> set r. isspace x \<Longrightarrow> rev (dropWhile isspace (rev r)) = []"
  by simp









section \<open>File names, and the chunk splitter\<close>

lemma digits_value_snoc: "digits_value (ds @ [d]) = 10 * digits_value ds + (d - 48)"
  by (simp add: digits_value_def)

lemma digits_value_str_nat: "digits_value (str_nat n) = n"
proof (induction n rule: str_nat.induct)
  case (1 n)
  show ?case
  proof (cases "n < 10")
    case True
    then show ?thesis by (subst str_nat.simps) (simp add: digits_value_def)
  next
    case False
    then show ?thesis using 1 by (subst str_nat.simps) (simp add: digits_value_snoc)
  qed
qed

lemma digits_value_zeros: "digits_value (replicate k 48 @ ds) = digits_value ds"
proof -
  have "foldl (\<lambda>a d. 10 * a + (d - 48)) 0 (replicate k 48) = (0::nat)"
    by (induction k) simp_all
  then show ?thesis by (simp add: digits_value_def)
qed

lemma digits_value_fmt03d: "digits_value (fmt03d n) = n"
  by (simp add: fmt03d_def digits_value_zeros digits_value_str_nat)

lemma fmt03d_inj: "fmt03d i = fmt03d j \<longleftrightarrow> i = j"
  by (metis digits_value_fmt03d)

lemma path_join_name:
  "name \<noteq> [] \<Longrightarrow> hd name \<noteq> 47 \<Longrightarrow>
   path_join d name = (if d = [] \<or> last d = 47 then d else d @ [47]) @ name"
  by (cases name) (simp_all add: path_join_def)

lemma path_join_inj:
  "x \<noteq> [] \<Longrightarrow> hd x \<noteq> 47 \<Longrightarrow> y \<noteq> [] \<Longrightarrow> hd y \<noteq> 47 \<Longrightarrow>
   path_join d x = path_join d y \<longleftrightarrow> x = y"
  by (simp add: path_join_name)

lemma chunk_file_inj: "chunk_file out i = chunk_file out j \<longleftrightarrow> i = j"
  unfolding chunk_file_def
  by (subst path_join_inj) (simp_all add: u_def fmt03d_inj)

lemma export_chunks_result:
  assumes "\<forall>i. export_error e (chunk_file out i) = None" "distinct idx"
  shows "\<exists>w'. export_chunks e out a C (length (samples a)) idx acc w
                 = (Return (acc @ map (chunk_file out) idx), w') \<and>
              (\<forall>i \<in> set idx. map_of (sounds w') (chunk_file out i) = Some (chunk_of a C i)) \<and>
              (\<forall>q. q \<notin> chunk_file out ` set idx \<longrightarrow> map_of (sounds w') q = map_of (sounds w) q) \<and>
              w' = w\<lparr>sounds := sounds w'\<rparr>"
  using assms(2)
proof (induction idx arbitrary: acc w)
  case Nil
  then show ?case by simp
next
  case (Cons i rest)
  define w1 where "w1 = w\<lparr>sounds := AList.update (chunk_file out i) (chunk_of a C i) (sounds w)\<rparr>"
  have step: "export_chunks e out a C (length (samples a)) (i # rest) acc w =
              export_chunks e out a C (length (samples a)) rest (acc @ [chunk_file out i]) w1"
    using assms(1) by (simp add: Let_def chunk_file_def chunk_of_def w1_def)
  from Cons.prems have d: "distinct rest" and ni: "i \<notin> set rest" by simp_all
  from Cons.IH[OF d, of "acc @ [chunk_file out i]" w1]
  obtain w' where r: "export_chunks e out a C (length (samples a)) rest (acc @ [chunk_file out i]) w1
                       = (Return ((acc @ [chunk_file out i]) @ map (chunk_file out) rest), w')"
    and c: "\<forall>j \<in> set rest. map_of (sounds w') (chunk_file out j) = Some (chunk_of a C j)"
    and o: "\<forall>q. q \<notin> chunk_file out ` set rest \<longrightarrow> map_of (sounds w') q = map_of (sounds w1) q"
    and f: "w' = w1\<lparr>sounds := sounds w'\<rparr>"
    by blast
  have "chunk_file out i \<notin> chunk_file out ` set rest" using ni by (auto simp: chunk_file_inj)
  then have ci: "map_of (sounds w') (chunk_file out i) = Some (chunk_of a C i)"
    using o by (simp add: w1_def update_conv')
  have o': "\<forall>q. q \<notin> chunk_file out ` set (i # rest) \<longrightarrow> map_of (sounds w') q = map_of (sounds w) q"
    using o by (simp add: w1_def update_conv')
  have f': "w' = w\<lparr>sounds := sounds w'\<rparr>" using f by (simp add: w1_def)
  show ?case using step r c ci o' f' by auto
qed

lemma samples_chunk_of:
  "samples (chunk_of a C i) = take C (drop (i * C) (samples a))"
  by (simp add: chunk_of_def slice_ms_def min_def)

lemma chunk_samples_groups:
  "0 < C \<Longrightarrow>
   map (\<lambda>i. samples (chunk_of a C i)) [0 ..< (length (samples a) + C - 1) div C]
     = groups C (samples a)"
  by (simp add: groups_def range_step_def samples_chunk_of o_def)

text \<open>
  Claim C5. For every audio that loads, of duration \<open>D\<close> ms, and every chunk length
  \<open>C > 0\<close> ms, when no export fails: \<open>split_audio\<close> returns the paths of exactly
  \<open>ceil(D / C)\<close> chunks, in index order; the file of chunk \<open>i\<close> holds the span
  \<open>[i * C, min ((i + 1) * C) D)\<close> of the audio, so its duration is
  \<open>min ((i + 1) * C) D - i * C\<close>, which is at most \<open>C\<close>; the durations of the chunks
  sum to \<open>D\<close>, and the chunks put end to end are the audio.
\<close>

theorem split_audio_chunks:
  assumes "map_of (sounds w) file_path = Some a"
      and "0 < C"
      and "\<forall>i. export_error e (chunk_file out i) = None"
  shows "\<exists>w'. split_audio e out file_path C w
                = (Return (map (chunk_file out)
                     [0 ..< nat \<lceil>rat_of_nat (length (samples a)) / rat_of_nat C\<rceil>]), w') \<and>
           (\<forall>i < nat \<lceil>rat_of_nat (length (samples a)) / rat_of_nat C\<rceil>.
              \<exists>c. map_of (sounds w') (chunk_file out i) = Some c \<and>
                  samples c = take (min ((i + 1) * C) (length (samples a)) - i * C)
                                   (drop (i * C) (samples a)) \<and>
                  length (samples c) = min ((i + 1) * C) (length (samples a)) - i * C \<and>
                  length (samples c) \<le> C \<and> channels c = 1 \<and> frame_rate c = 16000) \<and>
           (\<Sum>i < nat \<lceil>rat_of_nat (length (samples a)) / rat_of_nat C\<rceil>.
              min ((i + 1) * C) (length (samples a)) - i * C) = length (samples a) \<and>
           concat (map (\<lambda>i. take (min ((i + 1) * C) (length (samples a)) - i * C)
                                 (drop (i * C) (samples a)))
                       [0 ..< nat \<lceil>rat_of_nat (length (samples a)) / rat_of_nat C\<rceil>])
             = samples a"
proof -
  define D where "D = length (samples a)"
  define n where "n = nat \<lceil>rat_of_nat D / rat_of_nat C\<rceil>"
  have n: "n = (D + C - 1) div C" unfolding n_def by (rule ceil_div_nat[OF assms(2)])
  define a1 where "a1 = a\<lparr>channels := 1\<rparr>"
  have sa1: "samples a1 = samples a" by (simp add: a1_def)
  have co: "chunk_of a1 C i = chunk_of a C i" for i
    by (simp add: chunk_of_def slice_ms_def a1_def)
  have run: "split_audio e out file_path C w =
             export_chunks e out a1 C (length (samples a1)) [0 ..< n] [] w"
    using assms(1,2) by (simp add: split_audio_def Let_def a1_def n_def D_def)
  from export_chunks_result[OF assms(3), of "[0 ..< n]" a1 C "[]" w]
  obtain w' where r: "export_chunks e out a1 C (length (samples a1)) [0 ..< n] [] w
                       = (Return (map (chunk_file out) [0 ..< n]), w')"
    and c: "\<forall>i \<in> set [0 ..< n]. map_of (sounds w') (chunk_file out i) = Some (chunk_of a1 C i)"
    by auto
  have span: "take (min ((i + 1) * C) D - i * C) (drop (i * C) (samples a))
              = samples (chunk_of a C i)" for i
    by (simp add: chunk_of_def slice_ms_def D_def)
  have len: "length (samples (chunk_of a C i)) = min ((i + 1) * C) D - i * C" for i
    unfolding span[symmetric] by (auto simp: D_def min_def)
  have 1: "split_audio e out file_path C w = (Return (map (chunk_file out) [0 ..< n]), w')"
    using run r by simp
  have 2: "\<forall>i < n. \<exists>c. map_of (sounds w') (chunk_file out i) = Some c \<and>
                  samples c = take (min ((i + 1) * C) D - i * C) (drop (i * C) (samples a)) \<and>
                  length (samples c) = min ((i + 1) * C) D - i * C \<and>
                  length (samples c) \<le> C \<and> channels c = 1 \<and> frame_rate c = 16000"
  proof (intro allI impI)
    fix i assume "i < n"
    then have "map_of (sounds w') (chunk_file out i) = Some (chunk_of a C i)"
      using c co by simp
    moreover have "length (samples (chunk_of a C i)) \<le> C" by (simp add: samples_chunk_of)
    moreover have "channels (chunk_of a C i) = 1" "frame_rate (chunk_of a C i) = 16000"
      by (simp_all add: chunk_of_def)
    ultimately show "\<exists>c. map_of (sounds w') (chunk_file out i) = Some c \<and>
                  samples c = take (min ((i + 1) * C) D - i * C) (drop (i * C) (samples a)) \<and>
                  length (samples c) = min ((i + 1) * C) D - i * C \<and>
                  length (samples c) \<le> C \<and> channels c = 1 \<and> frame_rate c = 16000"
      using span[of i] len[of i] by simp
  qed
  have g: "map (\<lambda>i. samples (chunk_of a C i)) [0 ..< n] = groups C (samples a)"
    using chunk_samples_groups[OF assms(2), of a] by (simp add: n D_def)
  have 4: "concat (map (\<lambda>i. take (min ((i + 1) * C) D - i * C) (drop (i * C) (samples a)))
                       [0 ..< n]) = samples a"
    unfolding span g by (rule concat_groups[OF assms(2)])
  have "length (concat (map (\<lambda>i. samples (chunk_of a C i)) [0 ..< n])) = D"
    using 4 unfolding span by (simp add: D_def)
  then have "sum_list (map (\<lambda>i. min ((i + 1) * C) D - i * C) [0 ..< n]) = D"
    by (simp add: length_concat o_def len)
  then have 3: "(\<Sum>i < n. min ((i + 1) * C) D - i * C) = D"
    by (simp add: sum_list_sum_nth atLeast0LessThan) 
  show ?thesis using 1 2 3 4 unfolding n_def D_def by blast
qed

lemma fmt03d_small: "n < 10 \<Longrightarrow> fmt03d n = [48, 48, 48 + n]"
  by (simp add: fmt03d_def str_nat.simps numeral_2_eq_2)

theorem split_audio_chunks_witness:
  "map_of (sounds seven_ms_world) RECORDING_FILE = Some seven_ms_audio \<and> (0::nat) < 3 \<and>
   (\<forall>i. export_error quiet_env (chunk_file AUDIO_CHUNKS_DIR i) = None) \<and>
   (\<exists>w' c0 c1 c2.
      split_audio quiet_env AUDIO_CHUNKS_DIR RECORDING_FILE 3 seven_ms_world
        = (Return [u ''audio_chunks/chunk_000.wav'', u ''audio_chunks/chunk_001.wav'',
                   u ''audio_chunks/chunk_002.wav''], w') \<and>
      map_of (sounds w') (u ''audio_chunks/chunk_000.wav'') = Some c0 \<and> samples c0 = [1, 2, 3] \<and>
      map_of (sounds w') (u ''audio_chunks/chunk_001.wav'') = Some c1 \<and> samples c1 = [4, 5, 6] \<and>
      map_of (sounds w') (u ''audio_chunks/chunk_002.wav'') = Some c2 \<and> samples c2 = [7])"
proof -
  have h1: "map_of (sounds seven_ms_world) RECORDING_FILE = Some seven_ms_audio"
    by (simp add: seven_ms_world_def new_processor_def)
  have h2: "(0::nat) < 3" by simp
  have h3: "\<forall>i. export_error quiet_env (chunk_file AUDIO_CHUNKS_DIR i) = None"
    by (simp add: quiet_env_def)
  have "nat \<lceil>rat_of_nat 7 / rat_of_nat 3\<rceil> = (7 + 3 - 1) div 3"
    by (rule ceil_div_nat) simp
  then have n: "nat \<lceil>rat_of_nat (length (samples seven_ms_audio)) / rat_of_nat 3\<rceil> = 3"
    by (simp add: seven_ms_audio_def)
  have up: "[0 ..< 3] = [0, 1, 2]" by (simp add: upt_rec)
  have p0: "chunk_file AUDIO_CHUNKS_DIR 0 = u ''audio_chunks/chunk_000.wav''"
   and p1: "chunk_file AUDIO_CHUNKS_DIR 1 = u ''audio_chunks/chunk_001.wav''"
   and p2: "chunk_file AUDIO_CHUNKS_DIR 2 = u ''audio_chunks/chunk_002.wav''"
    by (simp_all add: chunk_file_def AUDIO_CHUNKS_DIR_def path_join_def fmt03d_small u_def)
  from split_audio_chunks[OF h1 h2 h3, unfolded n]
  obtain w' where r: "split_audio quiet_env AUDIO_CHUNKS_DIR RECORDING_FILE 3 seven_ms_world
                = (Return (map (chunk_file AUDIO_CHUNKS_DIR) [0 ..< 3]), w')"
    and c: "\<forall>i < 3. \<exists>c. map_of (sounds w') (chunk_file AUDIO_CHUNKS_DIR i) = Some c \<and>
                  samples c = take (min ((i + 1) * 3) (length (samples seven_ms_audio)) - i * 3)
                                   (drop (i * 3) (samples seven_ms_audio))"
    by blast
  have r': "split_audio quiet_env AUDIO_CHUNKS_DIR RECORDING_FILE 3 seven_ms_world
        = (Return [u ''audio_chunks/chunk_000.wav'', u ''audio_chunks/chunk_001.wav'',
                   u ''audio_chunks/chunk_002.wav''], w')"
    using r by (simp only: up list.map p0 p1 p2)
  from c[rule_format, of 0] obtain c0 where
    c0: "map_of (sounds w') (u ''audio_chunks/chunk_000.wav'') = Some c0 \<and> samples c0 = [1, 2, 3]"
    unfolding p0 by (auto simp: seven_ms_audio_def)
  from c[rule_format, of 1] obtain c1 where
    c1: "map_of (sounds w') (u ''audio_chunks/chunk_001.wav'') = Some c1 \<and> samples c1 = [4, 5, 6]"
    unfolding p1 by (auto simp: seven_ms_audio_def)
  from c[rule_format, of 2] obtain c2 where
    c2: "map_of (sounds w') (u ''audio_chunks/chunk_002.wav'') = Some c2 \<and> samples c2 = [7]"
    unfolding p2 by (auto simp: seven_ms_audio_def)
  show ?thesis using h1 h2 h3 r' c0 c1 c2 by blast
qed

section \<open>The two stage loops\<close>

lemma transcribe_loop_Cons:
  "transcribe_loop e t i (c # rest) w =
     (let w0 = (if stop_before_chunk e i then stop w else w)
      in if stop_event w0 then w0
         else transcribe_loop e t (Suc i) rest (transcribe_unit e t i c w0))"
  by (simp add: transcribe_unit_def Let_def)

lemma files_transcribe_unit:
  "files (transcribe_unit e t i c w) =
     (if nonempty_file (files w) (transcript_file i) then files w
      else AList.update (transcript_file i) (transcribe_file e c) (files w))"
  by (simp add: transcribe_unit_def write_text_def log_event_def Let_def)

lemma trace_transcribe_unit:
  "trace (transcribe_unit e t i c w) =
     trace w @ (if nonempty_file (files w) (transcript_file i) then []
                else [Call_transcribe_file i c])"
  by (simp add: transcribe_unit_def write_text_def log_event_def Let_def)

lemma other_transcribe_unit:
  "stop_event (transcribe_unit e t i c w) = stop_event w"
  "is_running (transcribe_unit e t i c w) = is_running w"
  "sounds (transcribe_unit e t i c w) = sounds w"
  "summarization_progress (transcribe_unit e t i c w) = summarization_progress w"
  by (simp_all add: transcribe_unit_def write_text_def log_event_def Let_def)

declare transcribe_loop.simps(2) [simp del]

lemma hd_u_Cons: "u (c # cs) = of_char c # u cs"
  by (simp add: u_def)

lemma transcript_file_eq:
  "transcript_file i = u ''transcripts/batch_'' @ fmt03d i @ u ''.txt''"
  by (simp add: transcript_file_def TRANSCRIPT_DIR_def path_join_def u_def)

lemma summary_file_eq:
  "summary_file i = u ''summaries/summary_'' @ fmt03d i @ u ''.txt''"
  by (simp add: summary_file_def SUMMARY_DIR_def path_join_def u_def)

lemma transcript_file_inj: "transcript_file i = transcript_file j \<longleftrightarrow> i = j"
  by (simp add: transcript_file_eq fmt03d_inj)

lemma summary_file_inj: "summary_file i = summary_file j \<longleftrightarrow> i = j"
  by (simp add: summary_file_eq fmt03d_inj)

lemma stop_event_stop_if: "stop_event (if b then stop w else w) \<longleftrightarrow> b \<or> stop_event w"
  by (simp add: stop_def)

lemma files_stop_if: "files (if b then stop w else w) = files w"
  by (simp add: stop_def)

lemma trace_stop_if: "trace (if b then stop w else w) = trace w"
  by (simp add: stop_def)

lemma transcribe_loop_frame:
  "p \<notin> transcript_file ` {i ..< i + length chunks} \<Longrightarrow>
   map_of (files (transcribe_loop e t i chunks w)) p = map_of (files w) p"
proof (induction chunks arbitrary: i w)
  case Nil
  then show ?case by simp
next
  case (Cons c rest)
  have a: "p \<noteq> transcript_file i" using Cons.prems by auto
  have b: "p \<notin> transcript_file ` {Suc i ..< Suc i + length rest}" using Cons.prems by auto
  show ?case
    using Cons.IH[OF b] a
    by (simp add: transcribe_loop_Cons Let_def files_stop_if files_transcribe_unit update_conv')
qed

lemma transcribe_loop_skip:
  "nonempty_file (files w) (transcript_file j) \<Longrightarrow>
   map_of (files (transcribe_loop e t i chunks w)) (transcript_file j)
     = map_of (files w) (transcript_file j)"
proof (induction chunks arbitrary: i w)
  case Nil
  then show ?case by simp
next
  case (Cons c rest)
  let ?w0 = "if stop_before_chunk e i then stop w else w"
  let ?w1 = "transcribe_unit e t i c ?w0"
  have keep: "map_of (files ?w1) (transcript_file j) = map_of (files w) (transcript_file j)"
    using Cons.prems
    by (auto simp: files_stop_if files_transcribe_unit update_conv' transcript_file_inj)
  then have "nonempty_file (files ?w1) (transcript_file j)"
    using Cons.prems by (simp add: nonempty_file_def)
  from Cons.IH[OF this] keep show ?case
    by (simp add: transcribe_loop_Cons Let_def files_stop_if)
qed

lemma transcribe_loop_stop_files:
  "i \<le> k \<Longrightarrow> stop_seen (stop_before_chunk e) w i k \<Longrightarrow> k \<le> j \<Longrightarrow>
   map_of (files (transcribe_loop e t i chunks w)) (transcript_file j)
     = map_of (files w) (transcript_file j)"
proof (induction chunks arbitrary: i w)
  case Nil
  then show ?case by simp
next
  case (Cons c rest)
  let ?w0 = "if stop_before_chunk e i then stop w else w"
  let ?w1 = "transcribe_unit e t i c ?w0"
  show ?case
  proof (cases "stop_event ?w0")
    case True
    then show ?thesis by (simp add: transcribe_loop_Cons Let_def files_stop_if)
  next
    case False
    then have ns: "\<not> stop_before_chunk e i" "\<not> stop_event w"
      by (simp_all add: stop_event_stop_if)
    from Cons.prems(2) ns obtain j' where j': "i \<le> j'" "j' \<le> k" "stop_before_chunk e j'"
      by (auto simp: stop_seen_def)
    then have "j' \<noteq> i" using ns by auto
    then have ik: "Suc i \<le> k" using j' by simp
    have seen: "stop_seen (stop_before_chunk e) ?w1 (Suc i) k"
      using j' \<open>j' \<noteq> i\<close> by (auto simp: stop_seen_def)
    have ne: "transcript_file j \<noteq> transcript_file i"
      using ik Cons.prems(3) by (simp add: transcript_file_inj)
    have "map_of (files ?w1) (transcript_file j) = map_of (files w) (transcript_file j)"
      using ne by (simp add: files_stop_if files_transcribe_unit update_conv')
    with Cons.IH[OF ik seen Cons.prems(3)] False show ?thesis
      by (simp add: transcribe_loop_Cons Let_def)
  qed
qed

lemma transcribe_loop_done:
  "\<not> stop_event w \<Longrightarrow> \<forall>j. i \<le> j \<and> j < k \<longrightarrow> \<not> stop_before_chunk e j \<Longrightarrow>
   k \<le> i + length chunks \<Longrightarrow> i \<le> j \<Longrightarrow> j < k \<Longrightarrow>
   map_of (files (transcribe_loop e t i chunks w)) (transcript_file j)
     = (if nonempty_file (files w) (transcript_file j) then map_of (files w) (transcript_file j)
        else Some (transcribe_file e (chunks ! (j - i))))"
proof (induction chunks arbitrary: i w)
  case Nil
  then show ?case by simp
next
  case (Cons c rest)
  let ?w0 = "if stop_before_chunk e i then stop w else w"
  let ?w1 = "transcribe_unit e t i c ?w0"
  have ns: "\<not> stop_before_chunk e i" using Cons.prems by auto
  then have w0: "?w0 = w" by simp
  have run: "transcribe_loop e t i (c # rest) w = transcribe_loop e t (Suc i) rest ?w1"
    using ns Cons.prems(1) by (simp add: transcribe_loop_Cons Let_def)
  show ?case
  proof (cases "j = i")
    case True
    have "transcript_file i \<notin> transcript_file ` {Suc i ..< Suc i + length rest}"
      by (auto simp: transcript_file_inj)
    from transcribe_loop_frame[OF this]
    have "map_of (files (transcribe_loop e t (Suc i) rest ?w1)) (transcript_file i)
          = map_of (files ?w1) (transcript_file i)" .
    then show ?thesis
      unfolding run True w0 by (simp add: files_transcribe_unit update_conv')
  next
    case False
    then have ij: "Suc i \<le> j" using Cons.prems(4) by simp
    have ne: "transcript_file j \<noteq> transcript_file i"
      using False by (simp add: transcript_file_inj)
    have same: "map_of (files ?w1) (transcript_file j) = map_of (files w) (transcript_file j)"
      using ne unfolding w0 by (simp add: files_transcribe_unit update_conv')
    have a: "\<not> stop_event ?w1" using Cons.prems(1) unfolding w0 by (simp add: other_transcribe_unit)
    have b: "\<forall>j. Suc i \<le> j \<and> j < k \<longrightarrow> \<not> stop_before_chunk e j" using Cons.prems(2) by auto
    have c: "k \<le> Suc i + length rest" using Cons.prems(3) by simp
    have nth: "(c # rest) ! (j - i) = rest ! (j - Suc i)" using ij by (simp add: Suc_diff_le nth_Cons')
    from Cons.IH[OF a b c ij Cons.prems(5)] same nth show ?thesis
      unfolding run by (simp add: nonempty_file_def)
  qed
qed

lemma transcribe_loop_trace_subset:
  "\<exists>evs. trace (transcribe_loop e t i chunks w) = trace w @ evs \<and>
         set evs \<subseteq> {Call_transcribe_file j (chunks ! (j - i)) | j.
                       i \<le> j \<and> j < i + length chunks \<and>
                       \<not> nonempty_file (files w) (transcript_file j)}"
proof (induction chunks arbitrary: i w)
  case Nil
  then show ?case by simp
next
  case (Cons c rest)
  let ?w0 = "if stop_before_chunk e i then stop w else w"
  let ?w1 = "transcribe_unit e t i c ?w0"
  show ?case
  proof (cases "stop_event ?w0")
    case True
    then show ?thesis by (simp add: transcribe_loop_Cons Let_def trace_stop_if)
  next
    case False
    from Cons.IH[of "Suc i" ?w1]
    obtain evs where evs: "trace (transcribe_loop e t (Suc i) rest ?w1) = trace ?w1 @ evs"
      and sub: "set evs \<subseteq> {Call_transcribe_file j (rest ! (j - Suc i)) | j.
                       Suc i \<le> j \<and> j < Suc i + length rest \<and>
                       \<not> nonempty_file (files ?w1) (transcript_file j)}"
      by blast
    define first where "first =
      (if nonempty_file (files w) (transcript_file i) then [] else [Call_transcribe_file i c])"
    have t1: "trace ?w1 = trace w @ first"
      by (simp add: trace_transcribe_unit trace_stop_if files_stop_if first_def)
    have run: "trace (transcribe_loop e t i (c # rest) w) = trace w @ (first @ evs)"
      using False evs t1 by (simp add: transcribe_loop_Cons Let_def)
    have s1: "set first \<subseteq> {Call_transcribe_file j ((c # rest) ! (j - i)) | j.
                       i \<le> j \<and> j < i + length (c # rest) \<and>
                       \<not> nonempty_file (files w) (transcript_file j)}"
      by (auto simp: first_def intro: exI[of _ i])
    have s2: "set evs \<subseteq> {Call_transcribe_file j ((c # rest) ! (j - i)) | j.
                       i \<le> j \<and> j < i + length (c # rest) \<and>
                       \<not> nonempty_file (files w) (transcript_file j)}"
    proof
      fix ev assume "ev \<in> set evs"
      with sub obtain j where j: "ev = Call_transcribe_file j (rest ! (j - Suc i))"
        "Suc i \<le> j" "j < Suc i + length rest"
        "\<not> nonempty_file (files ?w1) (transcript_file j)"
        by blast
      have ne: "transcript_file j \<noteq> transcript_file i" using j(2) by (simp add: transcript_file_inj)
      have "map_of (files ?w1) (transcript_file j) = map_of (files w) (transcript_file j)"
        using ne by (simp add: files_stop_if files_transcribe_unit update_conv')
      then have "\<not> nonempty_file (files w) (transcript_file j)"
        using j(4) by (simp add: nonempty_file_def)
      moreover have "(c # rest) ! (j - i) = rest ! (j - Suc i)"
        using j(2) by (simp add: Suc_diff_le nth_Cons')
      then have "ev = Call_transcribe_file j ((c # rest) ! (j - i))" using j(1) by metis
      moreover have "i \<le> j" "j < i + length (c # rest)" using j(2,3) by simp_all
      ultimately show "ev \<in> {Call_transcribe_file j ((c # rest) ! (j - i)) | j.
                       i \<le> j \<and> j < i + length (c # rest) \<and>
                       \<not> nonempty_file (files w) (transcript_file j)}"
        by blast
    qed
    show ?thesis using run s1 s2 by (intro exI[of _ "first @ evs"]) simp
  qed
qed

lemma transcribe_loop_trace_stopped:
  "i \<le> k \<Longrightarrow> stop_seen (stop_before_chunk e) w i k \<Longrightarrow>
   \<exists>evs. trace (transcribe_loop e t i chunks w) = trace w @ evs \<and>
         set evs \<subseteq> {Call_transcribe_file j (chunks ! (j - i)) | j. i \<le> j \<and> j < k}"
proof (induction chunks arbitrary: i w)
  case Nil
  then show ?case by simp
next
  case (Cons c rest)
  let ?w0 = "if stop_before_chunk e i then stop w else w"
  let ?w1 = "transcribe_unit e t i c ?w0"
  show ?case
  proof (cases "stop_event ?w0")
    case True
    then show ?thesis by (simp add: transcribe_loop_Cons Let_def trace_stop_if)
  next
    case False
    then have ns: "\<not> stop_before_chunk e i" "\<not> stop_event w"
      by (simp_all add: stop_event_stop_if)
    from Cons.prems(2) ns obtain j' where j': "i \<le> j'" "j' \<le> k" "stop_before_chunk e j'"
      by (auto simp: stop_seen_def)
    then have "j' \<noteq> i" using ns by auto
    then have ik: "Suc i \<le> k" using j' by simp
    have seen: "stop_seen (stop_before_chunk e) ?w1 (Suc i) k"
      using j' \<open>j' \<noteq> i\<close> by (auto simp: stop_seen_def)
    from Cons.IH[OF ik seen]
    obtain evs where evs: "trace (transcribe_loop e t (Suc i) rest ?w1) = trace ?w1 @ evs"
      and sub: "set evs \<subseteq> {Call_transcribe_file j (rest ! (j - Suc i)) | j. Suc i \<le> j \<and> j < k}"
      by blast
    define first where "first =
      (if nonempty_file (files w) (transcript_file i) then [] else [Call_transcribe_file i c])"
    have t1: "trace ?w1 = trace w @ first"
      by (simp add: trace_transcribe_unit trace_stop_if files_stop_if first_def)
    have run: "trace (transcribe_loop e t i (c # rest) w) = trace w @ (first @ evs)"
      using False evs t1 by (simp add: transcribe_loop_Cons Let_def)
    have s1: "set first \<subseteq> {Call_transcribe_file j ((c # rest) ! (j - i)) | j. i \<le> j \<and> j < k}"
      using ik by (auto simp: first_def intro: exI[of _ i])
    have s2: "set evs \<subseteq> {Call_transcribe_file j ((c # rest) ! (j - i)) | j. i \<le> j \<and> j < k}"
    proof
      fix ev assume "ev \<in> set evs"
      with sub obtain j where j: "ev = Call_transcribe_file j (rest ! (j - Suc i))"
        "Suc i \<le> j" "j < k"
        by blast
      have "(c # rest) ! (j - i) = rest ! (j - Suc i)"
        using j(2) by (simp add: Suc_diff_le nth_Cons')
      then have "ev = Call_transcribe_file j ((c # rest) ! (j - i))" using j(1) by metis
      moreover have "i \<le> j" using j(2) by simp
      ultimately show "ev \<in> {Call_transcribe_file j ((c # rest) ! (j - i)) | j. i \<le> j \<and> j < k}"
        using j(3) by blast
    qed
    show ?thesis using run s1 s2 by (intro exI[of _ "first @ evs"]) simp
  qed
qed

lemma transcribe_loop_invoked:
  "\<not> stop_event w \<Longrightarrow> \<forall>j'. i \<le> j' \<and> j' \<le> j \<longrightarrow> \<not> stop_before_chunk e j' \<Longrightarrow>
   i \<le> j \<Longrightarrow> j < i + length chunks \<Longrightarrow>
   \<not> nonempty_file (files w) (transcript_file j) \<Longrightarrow>
   Call_transcribe_file j (chunks ! (j - i))
     \<in> set (drop (length (trace w)) (trace (transcribe_loop e t i chunks w)))"
proof (induction chunks arbitrary: i w)
  case Nil
  then show ?case by simp
next
  case (Cons c rest)
  let ?w0 = "if stop_before_chunk e i then stop w else w"
  let ?w1 = "transcribe_unit e t i c ?w0"
  have ns: "\<not> stop_before_chunk e i" using Cons.prems by auto
  then have w0: "?w0 = w" by simp
  have run: "transcribe_loop e t i (c # rest) w = transcribe_loop e t (Suc i) rest ?w1"
    using ns Cons.prems(1) by (simp add: transcribe_loop_Cons Let_def)
  obtain evs where evs: "trace (transcribe_loop e t (Suc i) rest ?w1) = trace ?w1 @ evs"
    using transcribe_loop_trace_subset[of e t "Suc i" rest ?w1] by blast
  show ?case
  proof (cases "j = i")
    case True
    have "trace ?w1 = trace w @ [Call_transcribe_file i c]"
      using Cons.prems(5) unfolding w0 True by (simp add: trace_transcribe_unit)
    then show ?thesis unfolding run evs True by simp
  next
    case False
    then have ij: "Suc i \<le> j" using Cons.prems(3) by simp
    have ne: "transcript_file j \<noteq> transcript_file i"
      using False by (simp add: transcript_file_inj)
    have same: "map_of (files ?w1) (transcript_file j) = map_of (files w) (transcript_file j)"
      using ne unfolding w0 by (simp add: files_transcribe_unit update_conv')
    have a: "\<not> stop_event ?w1" using Cons.prems(1) unfolding w0 by (simp add: other_transcribe_unit)
    have b: "\<forall>j'. Suc i \<le> j' \<and> j' \<le> j \<longrightarrow> \<not> stop_before_chunk e j'" using Cons.prems(2) by auto
    have c: "j < Suc i + length rest" using Cons.prems(4) by simp
    have d: "\<not> nonempty_file (files ?w1) (transcript_file j)"
      using same Cons.prems(5) by (simp add: nonempty_file_def)
    have nth: "(c # rest) ! (j - i) = rest ! (j - Suc i)" using ij by (simp add: Suc_diff_le nth_Cons')
    obtain first where t1: "trace ?w1 = trace w @ first"
      unfolding w0 by (simp add: trace_transcribe_unit)
    from Cons.IH[OF a b ij c d]
    have "Call_transcribe_file j (rest ! (j - Suc i)) \<in> set evs"
      unfolding evs by simp
    then show ?thesis unfolding run evs nth t1 by simp
  qed
qed

lemma summarize_loop_Cons:
  "summarize_loop e t i (c # rest) w =
     (let w0 = (if stop_before_part e i then stop w else w)
      in if stop_event w0 then (Return (), w0)
         else (case summarize_unit e t i c w0 of
                 (Raise m, w') \<Rightarrow> (Raise m, w')
               | (Return x, w') \<Rightarrow> summarize_loop e t (Suc i) rest w'))"
  by (simp add: summarize_unit_def Let_def split: prod.splits result.splits)

declare summarize_loop.simps(2) [simp del]

lemma fst_summarize_unit:
  "fst (summarize_unit e t i c w) =
     (if nonempty_file (files w) (summary_file i) then Return ()
      else case summarize_text_chunk e c of Raise m \<Rightarrow> Raise m | Return s \<Rightarrow> Return ())"
  by (simp add: summarize_unit_def Let_def split: result.splits)

lemma files_summarize_unit:
  "files (snd (summarize_unit e t i c w)) =
     (if nonempty_file (files w) (summary_file i) then files w
      else case summarize_text_chunk e c of
             Raise m \<Rightarrow> files w
           | Return s \<Rightarrow> AList.update (summary_file i) s (files w))"
  by (simp add: summarize_unit_def write_text_def log_event_def Let_def
           split: result.splits)

lemma trace_summarize_unit:
  "trace (snd (summarize_unit e t i c w)) =
     trace w @ (if nonempty_file (files w) (summary_file i) then []
                else [Call_summarize_text_chunk i c])"
  by (simp add: summarize_unit_def write_text_def log_event_def Let_def
           split: result.splits)

lemma other_summarize_unit:
  "stop_event (snd (summarize_unit e t i c w)) = stop_event w"
  "is_running (snd (summarize_unit e t i c w)) = is_running w"
  "sounds (snd (summarize_unit e t i c w)) = sounds w"
  "transcription_progress (snd (summarize_unit e t i c w)) = transcription_progress w"
  by (simp_all add: summarize_unit_def write_text_def log_event_def Let_def
           split: result.splits)

lemma summarize_loop_step:
  "summarize_loop e t i (c # rest) w =
     (if stop_before_part e i \<or> stop_event w
      then (Return (), if stop_before_part e i then stop w else w)
      else if fst (summarize_unit e t i c w) = Return ()
           then summarize_loop e t (Suc i) rest (snd (summarize_unit e t i c w))
           else summarize_unit e t i c w)"
  by (cases "summarize_unit e t i c w")
     (auto simp: summarize_loop_Cons Let_def stop_def split: result.splits)

lemma summarize_unit_files_at:
  "map_of (files (snd (summarize_unit e t i c w))) p =
     (if p = summary_file i \<and> \<not> nonempty_file (files w) (summary_file i)
      then (case summarize_text_chunk e c of Raise m \<Rightarrow> map_of (files w) p | Return s \<Rightarrow> Some s)
      else map_of (files w) p)"
  by (simp add: files_summarize_unit update_conv' split: result.splits)

lemma summarize_loop_frame:
  "p \<notin> summary_file ` {i ..< i + length chunks} \<Longrightarrow>
   map_of (files (snd (summarize_loop e t i chunks w))) p = map_of (files w) p"
proof (induction chunks arbitrary: i w)
  case Nil
  then show ?case by simp
next
  case (Cons c rest)
  have a: "p \<noteq> summary_file i" using Cons.prems by auto
  have b: "p \<notin> summary_file ` {Suc i ..< Suc i + length rest}" using Cons.prems by auto
  show ?case
    using Cons.IH[OF b] a
    by (simp add: summarize_loop_step files_stop_if summarize_unit_files_at)
qed

lemma summarize_loop_skip:
  "nonempty_file (files w) (summary_file j) \<Longrightarrow>
   map_of (files (snd (summarize_loop e t i chunks w))) (summary_file j)
     = map_of (files w) (summary_file j)"
proof (induction chunks arbitrary: i w)
  case Nil
  then show ?case by simp
next
  case (Cons c rest)
  let ?w1 = "snd (summarize_unit e t i c w)"
  have keep: "map_of (files ?w1) (summary_file j) = map_of (files w) (summary_file j)"
    using Cons.prems by (auto simp: summarize_unit_files_at summary_file_inj)
  then have "nonempty_file (files ?w1) (summary_file j)"
    using Cons.prems by (simp add: nonempty_file_def)
  from Cons.IH[OF this] keep show ?case
    by (simp add: summarize_loop_step files_stop_if)
qed

lemma summarize_loop_stop_files:
  "i \<le> k \<Longrightarrow> stop_seen (stop_before_part e) w i k \<Longrightarrow> k \<le> j \<Longrightarrow>
   map_of (files (snd (summarize_loop e t i chunks w))) (summary_file j)
     = map_of (files w) (summary_file j)"
proof (induction chunks arbitrary: i w)
  case Nil
  then show ?case by simp
next
  case (Cons c rest)
  let ?w1 = "snd (summarize_unit e t i c w)"
  show ?case
  proof (cases "stop_before_part e i \<or> stop_event w")
    case True
    then show ?thesis by (simp add: summarize_loop_step files_stop_if)
  next
    case False
    then have ns: "\<not> stop_before_part e i" "\<not> stop_event w" by simp_all
    from Cons.prems(2) ns obtain j' where j': "i \<le> j'" "j' \<le> k" "stop_before_part e j'"
      by (auto simp: stop_seen_def)
    then have "j' \<noteq> i" using ns by auto
    then have ik: "Suc i \<le> k" using j' by simp
    have seen: "stop_seen (stop_before_part e) ?w1 (Suc i) k"
      using j' \<open>j' \<noteq> i\<close> by (auto simp: stop_seen_def)
    have ne: "summary_file j \<noteq> summary_file i"
      using ik Cons.prems(3) by (simp add: summary_file_inj)
    have "map_of (files ?w1) (summary_file j) = map_of (files w) (summary_file j)"
      using ne by (simp add: summarize_unit_files_at)
    with Cons.IH[OF ik seen Cons.prems(3)] False show ?thesis
      by (simp add: summarize_loop_step)
  qed
qed

lemma fst_summarize_unit_ok:
  "\<exists>s. summarize_text_chunk e c = Return s \<Longrightarrow> fst (summarize_unit e t i c w) = Return ()"
  by (auto simp: fst_summarize_unit)

lemma summarize_loop_returns:
  "\<forall>c \<in> set chunks. \<exists>s. summarize_text_chunk e c = Return s \<Longrightarrow>
   fst (summarize_loop e t i chunks w) = Return ()"
proof (induction chunks arbitrary: i w)
  case Nil
  then show ?case by simp
next
  case (Cons c rest)
  then show ?case by (simp add: summarize_loop_step fst_summarize_unit_ok)
qed

lemma summarize_loop_done:
  "\<not> stop_event w \<Longrightarrow> \<forall>j. i \<le> j \<and> j < k \<longrightarrow> \<not> stop_before_part e j \<Longrightarrow>
   \<forall>c \<in> set chunks. \<exists>s. summarize_text_chunk e c = Return s \<Longrightarrow>
   k \<le> i + length chunks \<Longrightarrow> i \<le> j \<Longrightarrow> j < k \<Longrightarrow>
   (if nonempty_file (files w) (summary_file j)
    then Return (the (map_of (files (snd (summarize_loop e t i chunks w))) (summary_file j)))
           = Return (the (map_of (files w) (summary_file j)))
    else map_of (files (snd (summarize_loop e t i chunks w))) (summary_file j) \<noteq> None \<and>
         Return (the (map_of (files (snd (summarize_loop e t i chunks w))) (summary_file j)))
           = summarize_text_chunk e (chunks ! (j - i)))"
proof (induction chunks arbitrary: i w)
  case Nil
  then show ?case by simp
next
  case (Cons c rest)
  let ?w1 = "snd (summarize_unit e t i c w)"
  have ns: "\<not> stop_before_part e i" using Cons.prems by auto
  obtain s where s: "summarize_text_chunk e c = Return s" using Cons.prems(3) by auto
  have run: "summarize_loop e t i (c # rest) w = summarize_loop e t (Suc i) rest ?w1"
    using ns Cons.prems(1) s by (simp add: summarize_loop_step fst_summarize_unit)
  show ?case
  proof (cases "j = i")
    case True
    have "summary_file i \<notin> summary_file ` {Suc i ..< Suc i + length rest}"
      by (auto simp: summary_file_inj)
    from summarize_loop_frame[OF this]
    have "map_of (files (snd (summarize_loop e t (Suc i) rest ?w1))) (summary_file i)
          = map_of (files ?w1) (summary_file i)" .
    then show ?thesis
      unfolding run True by (simp add: summarize_unit_files_at s)
  next
    case False
    then have ij: "Suc i \<le> j" using Cons.prems(5) by simp
    have ne: "summary_file j \<noteq> summary_file i"
      using False by (simp add: summary_file_inj)
    have same: "map_of (files ?w1) (summary_file j) = map_of (files w) (summary_file j)"
      using ne by (simp add: summarize_unit_files_at)
    have a: "\<not> stop_event ?w1" using Cons.prems(1) by (simp add: other_summarize_unit)
    have b: "\<forall>j. Suc i \<le> j \<and> j < k \<longrightarrow> \<not> stop_before_part e j" using Cons.prems(2) by auto
    have c: "\<forall>c \<in> set rest. \<exists>s. summarize_text_chunk e c = Return s" using Cons.prems(3) by simp
    have d: "k \<le> Suc i + length rest" using Cons.prems(4) by simp
    have nth: "(c # rest) ! (j - i) = rest ! (j - Suc i)" using ij by (simp add: Suc_diff_le nth_Cons')
    from Cons.IH[OF a b c d ij Cons.prems(6)] same nth show ?thesis
      unfolding run by (simp add: nonempty_file_def)
  qed
qed

lemma summarize_loop_trace_subset:
  "\<exists>evs. trace (snd (summarize_loop e t i chunks w)) = trace w @ evs \<and>
         set evs \<subseteq> {Call_summarize_text_chunk j (chunks ! (j - i)) | j.
                       i \<le> j \<and> j < i + length chunks \<and>
                       \<not> nonempty_file (files w) (summary_file j)}"
proof (induction chunks arbitrary: i w)
  case Nil
  then show ?case by simp
next
  case (Cons c rest)
  let ?w1 = "snd (summarize_unit e t i c w)"
  define first where "first =
      (if nonempty_file (files w) (summary_file i) then [] else [Call_summarize_text_chunk i c])"
  have t1: "trace ?w1 = trace w @ first"
    by (simp add: trace_summarize_unit first_def)
  have s1: "set first \<subseteq> {Call_summarize_text_chunk j ((c # rest) ! (j - i)) | j.
                       i \<le> j \<and> j < i + length (c # rest) \<and>
                       \<not> nonempty_file (files w) (summary_file j)}"
    by (auto simp: first_def intro: exI[of _ i])
  show ?case
  proof (cases "stop_before_part e i \<or> stop_event w")
    case True
    then show ?thesis by (simp add: summarize_loop_step trace_stop_if)
  next
    case False
    show ?thesis
    proof (cases "fst (summarize_unit e t i c w) = Return ()")
      case stopped: False
      then have "trace (snd (summarize_loop e t i (c # rest) w)) = trace w @ first"
        using False t1 by (simp add: summarize_loop_step)
      then show ?thesis using s1 by blast
    next
      case True
      from Cons.IH[of "Suc i" ?w1]
      obtain evs where evs: "trace (snd (summarize_loop e t (Suc i) rest ?w1)) = trace ?w1 @ evs"
        and sub: "set evs \<subseteq> {Call_summarize_text_chunk j (rest ! (j - Suc i)) | j.
                       Suc i \<le> j \<and> j < Suc i + length rest \<and>
                       \<not> nonempty_file (files ?w1) (summary_file j)}"
        by blast
      have run: "trace (snd (summarize_loop e t i (c # rest) w)) = trace w @ (first @ evs)"
        using False True evs t1 by (simp add: summarize_loop_step)
      have s2: "set evs \<subseteq> {Call_summarize_text_chunk j ((c # rest) ! (j - i)) | j.
                       i \<le> j \<and> j < i + length (c # rest) \<and>
                       \<not> nonempty_file (files w) (summary_file j)}"
      proof
        fix ev assume "ev \<in> set evs"
        with sub obtain j where j: "ev = Call_summarize_text_chunk j (rest ! (j - Suc i))"
          "Suc i \<le> j" "j < Suc i + length rest"
          "\<not> nonempty_file (files ?w1) (summary_file j)"
          by blast
        have ne: "summary_file j \<noteq> summary_file i" using j(2) by (simp add: summary_file_inj)
        have "map_of (files ?w1) (summary_file j) = map_of (files w) (summary_file j)"
          using ne by (simp add: summarize_unit_files_at)
        then have "\<not> nonempty_file (files w) (summary_file j)"
          using j(4) by (simp add: nonempty_file_def)
        moreover have "(c # rest) ! (j - i) = rest ! (j - Suc i)"
          using j(2) by (simp add: Suc_diff_le nth_Cons')
        then have "ev = Call_summarize_text_chunk j ((c # rest) ! (j - i))" using j(1) by metis
        moreover have "i \<le> j" "j < i + length (c # rest)" using j(2,3) by simp_all
        ultimately show "ev \<in> {Call_summarize_text_chunk j ((c # rest) ! (j - i)) | j.
                       i \<le> j \<and> j < i + length (c # rest) \<and>
                       \<not> nonempty_file (files w) (summary_file j)}"
          by blast
      qed
      show ?thesis using run s1 s2 by (intro exI[of _ "first @ evs"]) simp
    qed
  qed
qed

lemma summarize_loop_trace_stopped:
  "i \<le> k \<Longrightarrow> stop_seen (stop_before_part e) w i k \<Longrightarrow>
   \<exists>evs. trace (snd (summarize_loop e t i chunks w)) = trace w @ evs \<and>
         set evs \<subseteq> {Call_summarize_text_chunk j (chunks ! (j - i)) | j. i \<le> j \<and> j < k}"
proof (induction chunks arbitrary: i w)
  case Nil
  then show ?case by simp
next
  case (Cons c rest)
  let ?w1 = "snd (summarize_unit e t i c w)"
  show ?case
  proof (cases "stop_before_part e i \<or> stop_event w")
    case True
    then show ?thesis by (simp add: summarize_loop_step trace_stop_if)
  next
    case False
    then have ns: "\<not> stop_before_part e i" "\<not> stop_event w" by simp_all
    from Cons.prems(2) ns obtain j' where j': "i \<le> j'" "j' \<le> k" "stop_before_part e j'"
      by (auto simp: stop_seen_def)
    then have "j' \<noteq> i" using ns by auto
    then have ik: "Suc i \<le> k" using j' by simp
    have seen: "stop_seen (stop_before_part e) ?w1 (Suc i) k"
      using j' \<open>j' \<noteq> i\<close> by (auto simp: stop_seen_def)
    define first where "first =
      (if nonempty_file (files w) (summary_file i) then [] else [Call_summarize_text_chunk i c])"
    have t1: "trace ?w1 = trace w @ first"
      by (simp add: trace_summarize_unit first_def)
    have s1: "set first \<subseteq> {Call_summarize_text_chunk j ((c # rest) ! (j - i)) | j. i \<le> j \<and> j < k}"
      using ik by (auto simp: first_def intro: exI[of _ i])
    show ?thesis
    proof (cases "fst (summarize_unit e t i c w) = Return ()")
      case stopped: False
      then have "trace (snd (summarize_loop e t i (c # rest) w)) = trace w @ first"
        using False t1 by (simp add: summarize_loop_step)
      then show ?thesis using s1 by blast
    next
      case True
      from Cons.IH[OF ik seen]
      obtain evs where evs: "trace (snd (summarize_loop e t (Suc i) rest ?w1)) = trace ?w1 @ evs"
        and sub: "set evs \<subseteq> {Call_summarize_text_chunk j (rest ! (j - Suc i)) | j. Suc i \<le> j \<and> j < k}"
        by blast
      have run: "trace (snd (summarize_loop e t i (c # rest) w)) = trace w @ (first @ evs)"
        using False True evs t1 by (simp add: summarize_loop_step)
      have s2: "set evs \<subseteq> {Call_summarize_text_chunk j ((c # rest) ! (j - i)) | j. i \<le> j \<and> j < k}"
      proof
        fix ev assume "ev \<in> set evs"
        with sub obtain j where j: "ev = Call_summarize_text_chunk j (rest ! (j - Suc i))"
          "Suc i \<le> j" "j < k"
          by blast
        have "(c # rest) ! (j - i) = rest ! (j - Suc i)"
          using j(2) by (simp add: Suc_diff_le nth_Cons')
        then have "ev = Call_summarize_text_chunk j ((c # rest) ! (j - i))" using j(1) by metis
        moreover have "i \<le> j" using j(2) by simp
        ultimately show "ev \<in> {Call_summarize_text_chunk j ((c # rest) ! (j - i)) | j. i \<le> j \<and> j < k}"
          using j(3) by blast
      qed
      show ?thesis using run s1 s2 by (intro exI[of _ "first @ evs"]) simp
    qed
  qed
qed

lemma summarize_loop_invoked:
  "\<not> stop_event w \<Longrightarrow> \<forall>j'. i \<le> j' \<and> j' \<le> j \<longrightarrow> \<not> stop_before_part e j' \<Longrightarrow>
   \<forall>c \<in> set chunks. \<exists>s. summarize_text_chunk e c = Return s \<Longrightarrow>
   i \<le> j \<Longrightarrow> j < i + length chunks \<Longrightarrow>
   \<not> nonempty_file (files w) (summary_file j) \<Longrightarrow>
   Call_summarize_text_chunk j (chunks ! (j - i))
     \<in> set (drop (length (trace w)) (trace (snd (summarize_loop e t i chunks w))))"
proof (induction chunks arbitrary: i w)
  case Nil
  then show ?case by simp
next
  case (Cons c rest)
  let ?w1 = "snd (summarize_unit e t i c w)"
  have ns: "\<not> stop_before_part e i" using Cons.prems by auto
  obtain s where s: "summarize_text_chunk e c = Return s" using Cons.prems(3) by auto
  have run: "summarize_loop e t i (c # rest) w = summarize_loop e t (Suc i) rest ?w1"
    using ns Cons.prems(1) s by (simp add: summarize_loop_step fst_summarize_unit)
  obtain evs where evs: "trace (snd (summarize_loop e t (Suc i) rest ?w1)) = trace ?w1 @ evs"
    using summarize_loop_trace_subset[of e t "Suc i" rest ?w1] by blast
  show ?case
  proof (cases "j = i")
    case True
    have "trace ?w1 = trace w @ [Call_summarize_text_chunk i c]"
      using Cons.prems(6) unfolding True by (simp add: trace_summarize_unit)
    then show ?thesis unfolding run evs True by simp
  next
    case False
    then have ij: "Suc i \<le> j" using Cons.prems(4) by simp
    have ne: "summary_file j \<noteq> summary_file i"
      using False by (simp add: summary_file_inj)
    have same: "map_of (files ?w1) (summary_file j) = map_of (files w) (summary_file j)"
      using ne by (simp add: summarize_unit_files_at)
    have a: "\<not> stop_event ?w1" using Cons.prems(1) by (simp add: other_summarize_unit)
    have b: "\<forall>j'. Suc i \<le> j' \<and> j' \<le> j \<longrightarrow> \<not> stop_before_part e j'" using Cons.prems(2) by auto
    have c: "\<forall>c \<in> set rest. \<exists>s. summarize_text_chunk e c = Return s" using Cons.prems(3) by simp
    have d: "j < Suc i + length rest" using Cons.prems(5) by simp
    have f: "\<not> nonempty_file (files ?w1) (summary_file j)"
      using same Cons.prems(6) by (simp add: nonempty_file_def)
    have nth: "(c # rest) ! (j - i) = rest ! (j - Suc i)" using ij by (simp add: Suc_diff_le nth_Cons')
    obtain first where t1: "trace ?w1 = trace w @ first"
      by (simp add: trace_summarize_unit)
    from Cons.IH[OF a b c ij d f]
    have "Call_summarize_text_chunk j (rest ! (j - Suc i)) \<in> set evs"
      unfolding evs by simp
    then show ?thesis unfolding run evs nth t1 by simp
  qed
qed

section \<open>The merger and the compiler\<close>

lemma listdir_member:
  assumes "f \<in> set (listdir fs d)" "d \<noteq> []" "last d \<noteq> 47"
  shows "path_join d f \<in> fst ` set fs" and "in_dir d (path_join d f)"
proof -
  from assms(1) obtain p where p: "p \<in> fst ` set fs" "take (Suc (length d)) p = d @ [47]"
    "f = drop (Suc (length d)) p" "f \<noteq> []" "47 \<notin> set f"
    by (auto simp: listdir_def)
  have "hd f \<noteq> 47" using p(4,5) by (cases f) auto
  then have "path_join d f = d @ [47] @ f"
    using p(4) assms(2,3) by (simp add: path_join_name)
  also have "\<dots> = take (Suc (length d)) p @ drop (Suc (length d)) p"
    using p(2,3) by simp
  finally have e: "path_join d f = p" by simp
  show "path_join d f \<in> fst ` set fs" using e p(1) by simp
  show "in_dir d (path_join d f)" using e p(2) by (simp add: in_dir_def)
qed

lemma read_concat_existing:
  "\<forall>f \<in> set fls. f \<in> fst ` set fs \<Longrightarrow>
   read_concat fs sep fls acc = Return (acc @ concat (map (\<lambda>f. the (map_of fs f) @ sep) fls))"
proof (induction fls arbitrary: acc)
  case Nil
  then show ?case by simp
next
  case (Cons f fls)
  then have "map_of fs f \<noteq> None" by (simp add: map_of_eq_None_iff)
  then obtain t where "map_of fs f = Some t" by auto
  then show ?case using Cons by simp
qed

lemma dirs_ok:
  "TRANSCRIPT_DIR \<noteq> []" "last TRANSCRIPT_DIR \<noteq> 47"
  "SUMMARY_DIR \<noteq> []" "last SUMMARY_DIR \<noteq> 47"
  by (simp_all add: TRANSCRIPT_DIR_def SUMMARY_DIR_def u_def)

lemma transcript_paths_member:
  "p \<in> set (transcript_paths fs) \<Longrightarrow> p \<in> fst ` set fs \<and> in_dir TRANSCRIPT_DIR p"
  using listdir_member[OF _ dirs_ok(1,2)] by (auto simp: transcript_paths_def)

lemma summary_paths_member:
  "p \<in> set (summary_paths fs) \<Longrightarrow> p \<in> fst ` set fs \<and> in_dir SUMMARY_DIR p"
  using listdir_member[OF _ dirs_ok(3,4)] by (auto simp: summary_paths_def)

lemma merge_transcripts_eq:
  "merge_transcripts w = (Return (), write_text LECTURE_CLEAN_FILE (merged_text (files w)) w)"
proof -
  have "\<forall>f \<in> set (transcript_paths (files w)). f \<in> fst ` set (files w)"
    using transcript_paths_member by blast
  from read_concat_existing[OF this, of "u '' ''" "[]"] show ?thesis
    by (simp add: merge_transcripts_def merged_text_def transcript_paths_def Let_def)
qed

lemma compile_final_notes_eq:
  "compile_final_notes w = (Return (), write_text FINAL_NOTES_FILE (notes_text (files w)) w)"
proof -
  have "\<forall>f \<in> set (summary_paths (files w)). f \<in> fst ` set (files w)"
    using summary_paths_member by blast
  from read_concat_existing[OF this, of "[10, 10]" "u ''# Final Lecture Notes'' @ [10, 10]"]
  show ?thesis
    by (simp add: compile_final_notes_def notes_text_def summary_paths_def Let_def)
qed

lemma listdir_update:
  "\<not> in_dir d k \<Longrightarrow> listdir (AList.update k v fs) d = listdir fs d"
  by (simp add: listdir_def update_keys in_dir_def)

lemma listdir_cong:
  "map fst fs = map fst fs' \<Longrightarrow> listdir fs d = listdir fs' d"
  by (simp add: listdir_def)

lemma update_update_same: "AList.update k v (AList.update k v al) = AList.update k v al"
  by (induction al) auto

lemma not_in_dir_outputs:
  "\<not> in_dir TRANSCRIPT_DIR LECTURE_CLEAN_FILE" "\<not> in_dir SUMMARY_DIR FINAL_NOTES_FILE"
  "\<not> in_dir SUMMARY_DIR LECTURE_CLEAN_FILE" "\<not> in_dir TRANSCRIPT_DIR FINAL_NOTES_FILE"
  by (simp_all add: in_dir_def TRANSCRIPT_DIR_def SUMMARY_DIR_def LECTURE_CLEAN_FILE_def
        FINAL_NOTES_FILE_def NOTES_DIR_def path_join_def u_def)

lemma merged_text_update:
  assumes "\<not> in_dir TRANSCRIPT_DIR k"
  shows "merged_text (AList.update k v fs) = merged_text fs"
proof -
  have p: "transcript_paths (AList.update k v fs) = transcript_paths fs"
    using assms by (simp add: transcript_paths_def listdir_update)
  have m: "map (\<lambda>f. the (map_of (AList.update k v fs) f) @ u '' '') (transcript_paths fs)
        = map (\<lambda>f. the (map_of fs f) @ u '' '') (transcript_paths fs)"
  proof (rule map_cong[OF refl])
    fix f assume "f \<in> set (transcript_paths fs)"
    then have "in_dir TRANSCRIPT_DIR f" using transcript_paths_member by blast
    then have "f \<noteq> k" using assms by auto
    then show "the (map_of (AList.update k v fs) f) @ u '' '' = the (map_of fs f) @ u '' ''"
      by (simp add: update_conv')
  qed
  show ?thesis unfolding merged_text_def p m by (rule refl)
qed

lemma notes_text_update:
  assumes "\<not> in_dir SUMMARY_DIR k"
  shows "notes_text (AList.update k v fs) = notes_text fs"
proof -
  have p: "summary_paths (AList.update k v fs) = summary_paths fs"
    using assms by (simp add: summary_paths_def listdir_update)
  have m: "map (\<lambda>f. the (map_of (AList.update k v fs) f) @ [10, 10]) (summary_paths fs)
        = map (\<lambda>f. the (map_of fs f) @ [10, 10]) (summary_paths fs)"
  proof (rule map_cong[OF refl])
    fix f assume "f \<in> set (summary_paths fs)"
    then have "in_dir SUMMARY_DIR f" using summary_paths_member by blast
    then have "f \<noteq> k" using assms by auto
    then show "the (map_of (AList.update k v fs) f) @ [10, 10] = the (map_of fs f) @ [10, 10]"
      by (simp add: update_conv')
  qed
  show ?thesis unfolding notes_text_def p m by (rule refl)
qed

text \<open>
  Claim C7. The Transcript Merger and the Notes Compiler are idempotent. For every disk,
  \<open>merge_transcripts\<close> does not raise and writes to \<open>lecture_clean.txt\<close> a text that
  depends on the files of the transcript directory only; run a second time, with no new
  unit, it returns the same result and leaves the same world, so the output file is the
  same byte for byte. The same holds for \<open>compile_final_notes\<close> and
  \<open>notes/final_notes.txt\<close>.
\<close>

theorem merge_and_compile_idempotent:
  "merge_transcripts w = (Return (), write_text LECTURE_CLEAN_FILE (merged_text (files w)) w) \<and>
   merge_transcripts (snd (merge_transcripts w)) = merge_transcripts w \<and>
   compile_final_notes w = (Return (), write_text FINAL_NOTES_FILE (notes_text (files w)) w) \<and>
   compile_final_notes (snd (compile_final_notes w)) = compile_final_notes w"
  by (simp add: merge_transcripts_eq compile_final_notes_eq write_text_def
        merged_text_update notes_text_update not_in_dir_outputs update_update_same)

section \<open>The stage functions\<close>

lemma chunk_audio_unfold:
  "chunk_audio e p w = (r, w4) \<Longrightarrow>
   process_audio_batches e p w =
     (case (r, w4) of
        (Raise m, w4) \<Rightarrow> (Raise m, w4)
      | (Return chunks, w4) \<Rightarrow>
          if chunks = [] then (Return False, w4\<lparr>status_message := u ''Audio chunking failed.''\<rparr>)
          else
            (let total_chunks = length chunks;
                 w5 = w4\<lparr>transcription_progress := 2 / 10\<rparr>;
                 w6 = transcribe_loop e total_chunks 0 chunks w5;
                 w7 = w6\<lparr>status_message := u ''Merging transcripts...''\<rparr>
             in case merge_transcripts w7 of
                  (Raise m, w8) \<Rightarrow> (Raise m, w8)
                | (Return _, w8) \<Rightarrow> (Return True, w8\<lparr>transcription_progress := 1\<rparr>)))"
  unfolding process_audio_batches_def chunk_audio_def Let_def
  by (simp only: split_def)

lemma process_audio_batches_eq:
  "process_audio_batches e p w =
     (case chunk_audio e p w of
        (Raise m, w4) \<Rightarrow> (Raise m, w4)
      | (Return chunks, w4) \<Rightarrow>
          if chunks = [] then (Return False, w4\<lparr>status_message := u ''Audio chunking failed.''\<rparr>)
          else (Return True,
                finish_transcription
                  (transcribe_loop e (length chunks) 0 chunks (w4\<lparr>transcription_progress := 2 / 10\<rparr>))))"
proof (cases "chunk_audio e p w")
  case (Pair r w4)
  show ?thesis
  proof (cases r)
    case (Raise m)
    then show ?thesis using chunk_audio_unfold[OF Pair] Pair by simp
  next
    case (Return chunks)
    then show ?thesis using chunk_audio_unfold[OF Pair] Pair
      by (simp add: Let_def merge_transcripts_eq finish_transcription_def)
  qed
qed

lemma process_summary_batches_unfold:
  "process_summary_batches e w =
     (case map_of (files (begin_summary w)) LECTURE_CLEAN_FILE of
        None \<Rightarrow> (Return False, (begin_summary w)\<lparr>status_message := u ''No transcript found.''\<rparr>)
      | Some text \<Rightarrow>
          (case split_text_into_chunks text 500 of
             Raise m \<Rightarrow> (Raise m, begin_summary w)
           | Return chunks \<Rightarrow>
               if length chunks = 0
               then (Return False, (begin_summary w)\<lparr>status_message := u ''Text is empty.''\<rparr>)
               else
                 (case summarize_loop e (length chunks) 0 chunks (begin_summary w) of
                    (Raise m, w2) \<Rightarrow> (Raise m, w2)
                  | (Return _, w2) \<Rightarrow>
                      (case compile_final_notes
                              (w2\<lparr>status_message := u ''Compiling final notes...''\<rparr>) of
                         (Raise m, w3) \<Rightarrow> (Raise m, w3)
                       | (Return _, w3) \<Rightarrow>
                           (Return True, w3\<lparr>summarization_progress := 1\<rparr>)))))"
  unfolding process_summary_batches_def begin_summary_def Let_def by (rule refl)

lemma files_begin_summary: "files (begin_summary w) = files w"
  by (simp add: begin_summary_def log_event_def)

lemma process_summary_batches_eq:
  "process_summary_batches e w =
     (case map_of (files w) LECTURE_CLEAN_FILE of
        None \<Rightarrow> (Return False, (begin_summary w)\<lparr>status_message := u ''No transcript found.''\<rparr>)
      | Some text \<Rightarrow>
          (case split_text_into_chunks text 500 of
             Raise m \<Rightarrow> (Raise m, begin_summary w)
           | Return chunks \<Rightarrow>
               if chunks = []
               then (Return False, (begin_summary w)\<lparr>status_message := u ''Text is empty.''\<rparr>)
               else (case summarize_loop e (length chunks) 0 chunks (begin_summary w) of
                       (Raise m, w2) \<Rightarrow> (Raise m, w2)
                     | (Return x, w2) \<Rightarrow> (Return True, finish_summary w2))))"
proof (cases "map_of (files w) LECTURE_CLEAN_FILE")
  case None
  then show ?thesis
    by (simp add: process_summary_batches_unfold files_begin_summary)
next
  case (Some tx)
  show ?thesis
  proof (cases "split_text_into_chunks tx 500")
    case (Raise m)
    then show ?thesis
      using Some by (simp add: process_summary_batches_unfold files_begin_summary)
  next
    case (Return chunks)
    show ?thesis
    proof (cases "chunks = []")
      case True
      then show ?thesis
        using Some Return by (simp add: process_summary_batches_unfold files_begin_summary)
    next
      case False
      obtain r w2 where l: "summarize_loop e (length chunks) 0 chunks (begin_summary w) = (r, w2)"
        by (cases "summarize_loop e (length chunks) 0 chunks (begin_summary w)")
      show ?thesis
        using Some Return False l
        by (cases r)
           (simp_all add: process_summary_batches_unfold files_begin_summary
              compile_final_notes_eq finish_summary_def)
    qed
  qed
qed

lemma export_chunks_frame:
  "\<exists>s. snd (export_chunks e out a C D idx acc w) = w\<lparr>sounds := s\<rparr>"
proof (induction idx arbitrary: acc w)
  case Nil
  show ?case by (rule exI[of _ "sounds w"]) simp
next
  case (Cons i rest)
  show ?case
  proof (cases "export_error e (path_join out (u ''chunk_'' @ fmt03d i @ u ''.wav''))")
    case (Some m)
    then show ?thesis by (intro exI[of _ "sounds w"]) (simp add: Let_def)
  next
    case None
    let ?w1 = "w\<lparr>sounds := AList.update (path_join out (u ''chunk_'' @ fmt03d i @ u ''.wav''))
                  ((slice_ms a (i * C) (min ((i + 1) * C) D))\<lparr>channels := 1, frame_rate := 16000\<rparr>)
                  (sounds w)\<rparr>"
    from Cons.IH[of "acc @ [path_join out (u ''chunk_'' @ fmt03d i @ u ''.wav'')]" ?w1]
    obtain s where "snd (export_chunks e out a C D rest
                      (acc @ [path_join out (u ''chunk_'' @ fmt03d i @ u ''.wav'')]) ?w1) = ?w1\<lparr>sounds := s\<rparr>"
      by blast
    then show ?thesis using None by (intro exI[of _ s]) (simp add: Let_def)
  qed
qed

lemma export_chunks_paths:
  "fst (export_chunks e out a C D idx acc w) = Return cs \<Longrightarrow>
   cs = acc @ map (chunk_file out) idx"
proof (induction idx arbitrary: acc w)
  case Nil
  then show ?case by simp
next
  case (Cons i rest)
  show ?case
  proof (cases "export_error e (chunk_file out i)")
    case (Some m)
    then show ?thesis using Cons.prems by (simp add: Let_def chunk_file_def)
  next
    case None
    let ?w1 = "w\<lparr>sounds := AList.update (chunk_file out i)
                  ((slice_ms a (i * C) (min ((i + 1) * C) D))\<lparr>channels := 1, frame_rate := 16000\<rparr>)
                  (sounds w)\<rparr>"
    have "fst (export_chunks e out a C D rest (acc @ [chunk_file out i]) ?w1) = Return cs"
      using Cons.prems None by (simp add: Let_def chunk_file_def)
    from Cons.IH[OF this] show ?thesis by simp
  qed
qed

lemma split_audio_frame: "\<exists>s. snd (split_audio e out p C w) = w\<lparr>sounds := s\<rparr>"
proof (cases "map_of (sounds w) p")
  case None
  then show ?thesis by (intro exI[of _ "sounds w"]) (simp add: split_audio_def)
next
  case (Some a)
  show ?thesis
  proof (cases "C = 0")
    case True
    then show ?thesis using Some by (intro exI[of _ "sounds w"]) (simp add: split_audio_def)
  next
    case False
    then show ?thesis using Some export_chunks_frame by (simp add: split_audio_def Let_def)
  qed
qed

lemma split_audio_paths:
  assumes "fst (split_audio e out p C w) = Return cs"
  shows "cs = map (chunk_file out) [0 ..< length cs]"
proof (cases "map_of (sounds w) p")
  case None
  then show ?thesis using assms by (simp add: split_audio_def)
next
  case (Some a)
  show ?thesis
  proof (cases "C = 0")
    case True
    then show ?thesis using Some assms by (simp add: split_audio_def)
  next
    case False
    then obtain n where "cs = map (chunk_file out) [0 ..< n]"
      using Some assms export_chunks_paths[of e out _ C _ _ "[]" w cs]
      by (auto simp: split_audio_def Let_def)
    then show ?thesis by simp
  qed
qed

lemma normalize_step_frame: "\<exists>s. snd (normalize_step e p w) = w\<lparr>sounds := s\<rparr>"
  unfolding normalize_step_def Let_def
  by (cases "map_of (sounds w) p"; cases "normalize_effect e (the (map_of (sounds w) p))";
      cases "export_error e (replace p (u ''.wav'') (u ''_norm.wav''))")
     (auto intro: exI[of _ "sounds w"])

lemma chunk_audio_split:
  "chunk_audio e p w =
     split_audio e AUDIO_CHUNKS_DIR (fst (normalize_step e p (enter_transcription w))) 30000
       (snd (normalize_step e p (enter_transcription w)))"
  by (simp add: chunk_audio_def Let_def split_def enter_transcription_def)

lemma chunk_audio_frame:
  "\<exists>s. snd (chunk_audio e p w) = (enter_transcription w)\<lparr>sounds := s\<rparr>"
proof -
  obtain s1 where s1: "snd (normalize_step e p (enter_transcription w))
                       = (enter_transcription w)\<lparr>sounds := s1\<rparr>"
    using normalize_step_frame by blast
  obtain s2 where s2: "snd (split_audio e AUDIO_CHUNKS_DIR
                          (fst (normalize_step e p (enter_transcription w))) 30000
                          (snd (normalize_step e p (enter_transcription w))))
                       = (snd (normalize_step e p (enter_transcription w)))\<lparr>sounds := s2\<rparr>"
    using split_audio_frame by blast
  have "snd (chunk_audio e p w) = (snd (normalize_step e p (enter_transcription w)))\<lparr>sounds := s2\<rparr>"
    using s2 by (simp add: chunk_audio_split)
  then have "snd (chunk_audio e p w) = (enter_transcription w)\<lparr>sounds := s2\<rparr>"
    by (simp add: s1)
  then show ?thesis by blast
qed

lemma chunk_audio_paths:
  assumes "chunk_audio e p w = (Return cs, w4)"
  shows "cs = map (chunk_file AUDIO_CHUNKS_DIR) [0 ..< length cs]"
proof -
  have "fst (split_audio e AUDIO_CHUNKS_DIR (fst (normalize_step e p (enter_transcription w))) 30000
       (snd (normalize_step e p (enter_transcription w)))) = Return cs"
    using assms unfolding chunk_audio_split by simp
  then show ?thesis by (rule split_audio_paths)
qed

lemma chunk_audio_fields:
  assumes "chunk_audio e p w = (r, w4)"
  shows "files w4 = files w" "stop_event w4 = stop_event w" "is_running w4 = is_running w"
        "trace w4 = trace w @ [Enter_process_audio_batches]"
        "summarization_progress w4 = summarization_progress w"
proof -
  obtain s where "w4 = (enter_transcription w)\<lparr>sounds := s\<rparr>"
    using chunk_audio_frame[of e p w] assms by auto
  then show "files w4 = files w" "stop_event w4 = stop_event w" "is_running w4 = is_running w"
        "trace w4 = trace w @ [Enter_process_audio_batches]"
        "summarization_progress w4 = summarization_progress w"
    by (simp_all add: enter_transcription_def log_event_def)
qed

lemma unit_files_in_dir:
  "in_dir TRANSCRIPT_DIR (transcript_file j)" "in_dir SUMMARY_DIR (summary_file j)"
  by (simp_all add: in_dir_def transcript_file_eq summary_file_eq TRANSCRIPT_DIR_def
        SUMMARY_DIR_def u_def)

lemma unit_file_not_output:
  "transcript_file j \<noteq> LECTURE_CLEAN_FILE" "summary_file j \<noteq> FINAL_NOTES_FILE"
  using unit_files_in_dir not_in_dir_outputs by metis+

lemma files_finish_transcription:
  "map_of (files (finish_transcription w)) p =
     (if p = LECTURE_CLEAN_FILE then Some (merged_text (files w)) else map_of (files w) p)"
  by (simp add: finish_transcription_def write_text_def update_conv')

lemma files_finish_summary:
  "map_of (files (finish_summary w)) p =
     (if p = FINAL_NOTES_FILE then Some (notes_text (files w)) else map_of (files w) p)"
  by (simp add: finish_summary_def write_text_def update_conv')

lemma trace_finish: "trace (finish_transcription w) = trace w" "trace (finish_summary w) = trace w"
  by (simp_all add: finish_transcription_def finish_summary_def write_text_def)

lemma begin_summary_fields:
  "trace (begin_summary w) = trace w @ [Enter_process_summary_batches]"
  "stop_event (begin_summary w) = stop_event w" "is_running (begin_summary w) = is_running w"
  by (simp_all add: begin_summary_def log_event_def)

text \<open>Every path of \<open>process_audio_batches\<close>: what it does to a transcript unit file and
  to the trace, in terms of the loop.\<close>

lemma process_audio_batches_cases:
  obtains (raised) m w4 where "chunk_audio e p w = (Raise m, w4)"
      "process_audio_batches e p w = (Raise m, w4)"
    | (no_chunks) w4 where "chunk_audio e p w = (Return [], w4)"
      "process_audio_batches e p w = (Return False, w4\<lparr>status_message := u ''Audio chunking failed.''\<rparr>)"
    | (ran) chunks w4 where "chunk_audio e p w = (Return chunks, w4)" "chunks \<noteq> []"
      "process_audio_batches e p w =
         (Return True, finish_transcription
            (transcribe_loop e (length chunks) 0 chunks (w4\<lparr>transcription_progress := 2 / 10\<rparr>)))"
proof (cases "chunk_audio e p w")
  case (Pair r w4)
  show ?thesis
  proof (cases r)
    case (Raise m)
    then show ?thesis using Pair raised by (simp add: process_audio_batches_eq)
  next
    case (Return chunks)
    then show ?thesis using Pair no_chunks ran by (cases "chunks = []") (simp_all add: process_audio_batches_eq)
  qed
qed

lemma process_audio_batches_skip:
  assumes "nonempty_file (files w) (transcript_file j)"
  shows "map_of (files (snd (process_audio_batches e p w))) (transcript_file j)
           = map_of (files w) (transcript_file j)"
    and "Call_transcribe_file j x \<notin> set (new_events w (snd (process_audio_batches e p w)))"
proof -
  have "map_of (files (snd (process_audio_batches e p w))) (transcript_file j)
           = map_of (files w) (transcript_file j) \<and>
        Call_transcribe_file j x \<notin> set (new_events w (snd (process_audio_batches e p w)))"
  proof (cases rule: process_audio_batches_cases[of e p w])
    case (raised m w4)
    then show ?thesis using chunk_audio_fields[OF raised(1)] by (simp add: new_events_def)
  next
    case (no_chunks w4)
    then show ?thesis using chunk_audio_fields[OF no_chunks(1)] by (simp add: new_events_def)
  next
    case (ran chunks w4)
    let ?w5 = "w4\<lparr>transcription_progress := 2 / 10\<rparr>"
    let ?w6 = "transcribe_loop e (length chunks) 0 chunks ?w5"
    have f5: "files ?w5 = files w" and t5: "trace ?w5 = trace w @ [Enter_process_audio_batches]"
      using chunk_audio_fields[OF ran(1)] by simp_all
    have ne: "nonempty_file (files ?w5) (transcript_file j)" using assms f5 by simp
    have a: "map_of (files ?w6) (transcript_file j) = map_of (files w) (transcript_file j)"
      using transcribe_loop_skip[OF ne] f5 by simp
    obtain evs where evs: "trace ?w6 = trace ?w5 @ evs"
      and sub: "set evs \<subseteq> {Call_transcribe_file j' (chunks ! (j' - 0)) | j'.
                       0 \<le> j' \<and> j' < 0 + length chunks \<and>
                       \<not> nonempty_file (files ?w5) (transcript_file j')}"
      using transcribe_loop_trace_subset[of e "length chunks" 0 chunks ?w5] by blast
    have tr: "trace ?w6 = trace w @ (Enter_process_audio_batches # evs)"
      using evs t5 by simp
    have "Call_transcribe_file j x \<notin> set evs" using sub ne by auto
    then have b: "Call_transcribe_file j x \<notin> set (new_events w (finish_transcription ?w6))"
      unfolding new_events_def trace_finish tr by simp
    show ?thesis using a b ran(3) by (simp add: files_finish_transcription unit_file_not_output)
  qed
  then show "map_of (files (snd (process_audio_batches e p w))) (transcript_file j)
           = map_of (files w) (transcript_file j)"
    and "Call_transcribe_file j x \<notin> set (new_events w (snd (process_audio_batches e p w)))"
    by simp_all
qed

lemma process_audio_batches_done:
  assumes "chunk_audio e p w = (Return chunks, w4)"
      and "\<not> stop_event w" "\<forall>i < k. \<not> stop_before_chunk e i" "k \<le> length chunks" "j < k"
  shows "fst (process_audio_batches e p w) = Return True"
    and "map_of (files (snd (process_audio_batches e p w))) (transcript_file j)
           = (if nonempty_file (files w) (transcript_file j)
              then map_of (files w) (transcript_file j)
              else Some (transcribe_file e (chunks ! j)))"
    and "\<not> nonempty_file (files w) (transcript_file j) \<Longrightarrow>
         Call_transcribe_file j (chunks ! j) \<in> set (new_events w (snd (process_audio_batches e p w)))"
proof -
  let ?w5 = "w4\<lparr>transcription_progress := 2 / 10\<rparr>"
  let ?w6 = "transcribe_loop e (length chunks) 0 chunks ?w5"
  have ne: "chunks \<noteq> []" using assms(4,5) by auto
  have run: "process_audio_batches e p w = (Return True, finish_transcription ?w6)"
    using assms(1) ne by (simp add: process_audio_batches_eq)
  have f5: "files ?w5 = files w" and t5: "trace ?w5 = trace w @ [Enter_process_audio_batches]"
    and s5: "\<not> stop_event ?w5"
    using chunk_audio_fields[OF assms(1)] assms(2) by simp_all
  show "fst (process_audio_batches e p w) = Return True" using run by simp
  have "map_of (files ?w6) (transcript_file j)
        = (if nonempty_file (files ?w5) (transcript_file j)
           then map_of (files ?w5) (transcript_file j)
           else Some (transcribe_file e (chunks ! (j - 0))))"
    using transcribe_loop_done[of ?w5 0 k e chunks j "length chunks"] s5 assms(3,4,5) by simp
  then show "map_of (files (snd (process_audio_batches e p w))) (transcript_file j)
           = (if nonempty_file (files w) (transcript_file j)
              then map_of (files w) (transcript_file j)
              else Some (transcribe_file e (chunks ! j)))"
    using run f5 by (simp add: files_finish_transcription unit_file_not_output)
  assume "\<not> nonempty_file (files w) (transcript_file j)"
  then have "Call_transcribe_file j (chunks ! (j - 0))
             \<in> set (drop (length (trace ?w5)) (trace ?w6))"
    using transcribe_loop_invoked[of ?w5 0 j e chunks "length chunks"] s5 assms(3,4,5) f5 by simp
  then have "Call_transcribe_file j (chunks ! j)
             \<in> set (drop (Suc (length (trace w))) (trace ?w6))"
    using t5 by simp
  then have "Call_transcribe_file j (chunks ! j) \<in> set (drop (length (trace w)) (trace ?w6))"
    using set_drop_subset_set_drop[of "length (trace w)" "Suc (length (trace w))" "trace ?w6"]
    by auto
  then show "Call_transcribe_file j (chunks ! j) \<in> set (new_events w (snd (process_audio_batches e p w)))"
    unfolding run new_events_def by (simp add: trace_finish)
qed

lemma process_summary_batches_cases:
  obtains (no_file) "map_of (files w) LECTURE_CLEAN_FILE = None"
      "process_summary_batches e w =
         (Return False, (begin_summary w)\<lparr>status_message := u ''No transcript found.''\<rparr>)"
    | (raised_split) tx m where "map_of (files w) LECTURE_CLEAN_FILE = Some tx"
      "split_text_into_chunks tx 500 = Raise m"
      "process_summary_batches e w = (Raise m, begin_summary w)"
    | (empty) tx where "map_of (files w) LECTURE_CLEAN_FILE = Some tx"
      "split_text_into_chunks tx 500 = Return []"
      "process_summary_batches e w =
         (Return False, (begin_summary w)\<lparr>status_message := u ''Text is empty.''\<rparr>)"
    | (raised) tx chunks m w2 where "map_of (files w) LECTURE_CLEAN_FILE = Some tx"
      "split_text_into_chunks tx 500 = Return chunks" "chunks \<noteq> []"
      "summarize_loop e (length chunks) 0 chunks (begin_summary w) = (Raise m, w2)"
      "process_summary_batches e w = (Raise m, w2)"
    | (ran) tx chunks x w2 where "map_of (files w) LECTURE_CLEAN_FILE = Some tx"
      "split_text_into_chunks tx 500 = Return chunks" "chunks \<noteq> []"
      "summarize_loop e (length chunks) 0 chunks (begin_summary w) = (Return x, w2)"
      "process_summary_batches e w = (Return True, finish_summary w2)"
proof (cases "map_of (files w) LECTURE_CLEAN_FILE")
  case None
  then show ?thesis using no_file by (simp add: process_summary_batches_eq)
next
  case (Some tx)
  show ?thesis
  proof (cases "split_text_into_chunks tx 500")
    case (Raise m)
    then show ?thesis using Some raised_split by (simp add: process_summary_batches_eq)
  next
    case (Return chunks)
    show ?thesis
    proof (cases "chunks = []")
      case True
      then show ?thesis using Some Return empty by (simp add: process_summary_batches_eq)
    next
      case False
      obtain r w2 where l: "summarize_loop e (length chunks) 0 chunks (begin_summary w) = (r, w2)"
        by (cases "summarize_loop e (length chunks) 0 chunks (begin_summary w)")
      show ?thesis
      proof (cases r)
        case (Raise m)
        then show ?thesis
          using Some Return False l raised by (simp add: process_summary_batches_eq)
      next
        case r: (Return x)
        then show ?thesis
          using Some Return False l ran by (simp add: process_summary_batches_eq)
      qed
    qed
  qed
qed

lemma process_summary_batches_loop:
  obtains (no_loop) w1 where "snd (process_summary_batches e w) = w1"
      "files w1 = files w" "trace w1 = trace w @ [Enter_process_summary_batches]"
    | (loop) tx chunks where "map_of (files w) LECTURE_CLEAN_FILE = Some tx"
      "split_text_into_chunks tx 500 = Return chunks" "chunks \<noteq> []"
      "\<forall>p. p \<noteq> FINAL_NOTES_FILE \<longrightarrow>
         map_of (files (snd (process_summary_batches e w))) p
           = map_of (files (snd (summarize_loop e (length chunks) 0 chunks (begin_summary w)))) p"
      "trace (snd (process_summary_batches e w))
         = trace (snd (summarize_loop e (length chunks) 0 chunks (begin_summary w)))"
proof (cases rule: process_summary_batches_cases[of w e])
  case no_file
  then show ?thesis using no_loop by (simp add: files_begin_summary begin_summary_fields)
next
  case (raised_split tx m)
  then show ?thesis using no_loop by (simp add: files_begin_summary begin_summary_fields)
next
  case (empty tx)
  then show ?thesis using no_loop by (simp add: files_begin_summary begin_summary_fields)
next
  case (raised tx chunks m w2)
  then show ?thesis using loop[of tx chunks] by simp
next
  case (ran tx chunks x w2)
  then show ?thesis using loop[of tx chunks]
    by (simp add: files_finish_summary trace_finish)
qed

lemma process_summary_batches_skip:
  assumes "nonempty_file (files w) (summary_file j)"
  shows "map_of (files (snd (process_summary_batches e w))) (summary_file j)
           = map_of (files w) (summary_file j)"
    and "Call_summarize_text_chunk j x \<notin> set (new_events w (snd (process_summary_batches e w)))"
proof -
  have "map_of (files (snd (process_summary_batches e w))) (summary_file j)
           = map_of (files w) (summary_file j) \<and>
        Call_summarize_text_chunk j x \<notin> set (new_events w (snd (process_summary_batches e w)))"
  proof (cases rule: process_summary_batches_loop[of e w])
    case (no_loop w1)
    then show ?thesis by (simp add: new_events_def)
  next
    case (loop tx chunks)
    let ?w1 = "begin_summary w"
    let ?w2 = "snd (summarize_loop e (length chunks) 0 chunks ?w1)"
    have ne: "nonempty_file (files ?w1) (summary_file j)"
      using assms by (simp add: files_begin_summary)
    have a: "map_of (files ?w2) (summary_file j) = map_of (files w) (summary_file j)"
      using summarize_loop_skip[OF ne] by (simp add: files_begin_summary)
    obtain evs where evs: "trace ?w2 = trace ?w1 @ evs"
      and sub: "set evs \<subseteq> {Call_summarize_text_chunk j' (chunks ! (j' - 0)) | j'.
                       0 \<le> j' \<and> j' < 0 + length chunks \<and>
                       \<not> nonempty_file (files ?w1) (summary_file j')}"
      using summarize_loop_trace_subset[of e "length chunks" 0 chunks ?w1] by blast
    have tr: "trace ?w2 = trace w @ (Enter_process_summary_batches # evs)"
      using evs by (simp add: begin_summary_fields)
    have "Call_summarize_text_chunk j x \<notin> set evs" using sub ne by auto
    then have b: "Call_summarize_text_chunk j x
                  \<notin> set (new_events w (snd (process_summary_batches e w)))"
      unfolding new_events_def loop(5) tr by simp
    show ?thesis using a b loop(4) by (simp add: unit_file_not_output)
  qed
  then show "map_of (files (snd (process_summary_batches e w))) (summary_file j)
           = map_of (files w) (summary_file j)"
    and "Call_summarize_text_chunk j x \<notin> set (new_events w (snd (process_summary_batches e w)))"
    by simp_all
qed

lemma process_summary_batches_done:
  assumes "map_of (files w) LECTURE_CLEAN_FILE = Some tx"
      and "split_text_into_chunks tx 500 = Return chunks"
      and "\<forall>c \<in> set chunks. \<exists>s. summarize_text_chunk e c = Return s"
      and "\<not> stop_event w" "\<forall>i < k. \<not> stop_before_part e i" "k \<le> length chunks" "j < k"
  shows "fst (process_summary_batches e w) = Return True"
    and "nonempty_file (files w) (summary_file j) \<Longrightarrow>
         map_of (files (snd (process_summary_batches e w))) (summary_file j)
           = map_of (files w) (summary_file j)"
    and "\<not> nonempty_file (files w) (summary_file j) \<Longrightarrow>
         summarize_text_chunk e (chunks ! j) = Return s \<Longrightarrow>
         map_of (files (snd (process_summary_batches e w))) (summary_file j) = Some s"
    and "\<not> nonempty_file (files w) (summary_file j) \<Longrightarrow>
         Call_summarize_text_chunk j (chunks ! j)
           \<in> set (new_events w (snd (process_summary_batches e w)))"
proof -
  let ?w1 = "begin_summary w"
  let ?l = "summarize_loop e (length chunks) 0 chunks ?w1"
  have ne: "chunks \<noteq> []" using assms(6,7) by auto
  have r: "fst ?l = Return ()" using summarize_loop_returns[OF assms(3)] .
  have "process_summary_batches e w =
        (case ?l of (Raise m, w2) \<Rightarrow> (Raise m, w2)
                  | (Return x, w2) \<Rightarrow> (Return True, finish_summary w2))"
    using assms(1,2) ne by (simp add: process_summary_batches_eq)
  then have run: "process_summary_batches e w = (Return True, finish_summary (snd ?l))"
    using r by (cases ?l) (auto split: result.splits)
  have s1: "\<not> stop_event ?w1" using assms(4) by (simp add: begin_summary_fields)
  show "fst (process_summary_batches e w) = Return True" using run by simp
  show "map_of (files (snd (process_summary_batches e w))) (summary_file j)
           = map_of (files w) (summary_file j)"
    if "nonempty_file (files w) (summary_file j)"
    using process_summary_batches_skip(1)[OF that] .
  have d: "if nonempty_file (files ?w1) (summary_file j)
    then Return (the (map_of (files (snd ?l)) (summary_file j)))
           = Return (the (map_of (files ?w1) (summary_file j)))
    else map_of (files (snd ?l)) (summary_file j) \<noteq> None \<and>
         Return (the (map_of (files (snd ?l)) (summary_file j)))
           = summarize_text_chunk e (chunks ! (j - 0))"
    using summarize_loop_done[of ?w1 0 k e chunks j "length chunks"] s1 assms(3,5,6,7) by simp
  show "map_of (files (snd (process_summary_batches e w))) (summary_file j) = Some s"
    if "\<not> nonempty_file (files w) (summary_file j)" "summarize_text_chunk e (chunks ! j) = Return s"
    using d that run by (auto simp: files_begin_summary files_finish_summary unit_file_not_output)
  assume "\<not> nonempty_file (files w) (summary_file j)"
  then have "Call_summarize_text_chunk j (chunks ! (j - 0))
             \<in> set (drop (length (trace ?w1)) (trace (snd ?l)))"
    using summarize_loop_invoked[of ?w1 0 j e chunks "length chunks"] s1 assms(3,5,6,7)
    by (simp add: files_begin_summary)
  then have "Call_summarize_text_chunk j (chunks ! j)
             \<in> set (drop (Suc (length (trace w))) (trace (snd ?l)))"
    by (simp add: begin_summary_fields)
  then have "Call_summarize_text_chunk j (chunks ! j)
             \<in> set (drop (length (trace w)) (trace (snd ?l)))"
    using set_drop_subset_set_drop[of "length (trace w)" "Suc (length (trace w))" "trace (snd ?l)"]
    by auto
  then show "Call_summarize_text_chunk j (chunks ! j)
           \<in> set (new_events w (snd (process_summary_batches e w)))"
    unfolding run new_events_def by (simp add: trace_finish)
qed

section \<open>Skip if exists\<close>

lemma split_audio_run:
  assumes "map_of (sounds w) file_path = Some a" "0 < C"
      and "\<forall>i. export_error e (chunk_file out i) = None"
  shows "fst (split_audio e out file_path C w)
           = Return (map (chunk_file out) [0 ..< (length (samples a) + C - 1) div C])"
proof -
  define a1 where "a1 = a\<lparr>channels := 1\<rparr>"
  have "split_audio e out file_path C w =
          export_chunks e out a1 C (length (samples a1))
            [0 ..< (length (samples a) + C - 1) div C] [] w"
    using assms(1,2) by (simp add: split_audio_def Let_def a1_def ceil_div_nat)
  then show ?thesis
    using export_chunks_result[OF assms(3), of "[0 ..< (length (samples a) + C - 1) div C]" a1 C "[]" w]
    by auto
qed

lemma chunk_audio_run:
  assumes "map_of (sounds w) p = Some a" "normalize_effect e a = Some a'"
      and "\<forall>q. export_error e q = None"
  shows "fst (chunk_audio e p w)
           = Return (map (chunk_file AUDIO_CHUNKS_DIR)
                       [0 ..< (length (samples a') + 30000 - 1) div 30000])"
proof -
  let ?np = "replace p (u ''.wav'') (u ''_norm.wav'')"
  let ?w2 = "enter_transcription w"
  have s: "sounds ?w2 = sounds w" by (simp add: enter_transcription_def log_event_def)
  have n: "normalize_step e p ?w2 = (?np, ?w2\<lparr>sounds := AList.update ?np a' (sounds ?w2)\<rparr>)"
    using assms by (simp add: normalize_step_def s Let_def)
  have m: "map_of (sounds (?w2\<lparr>sounds := AList.update ?np a' (sounds ?w2)\<rparr>)) ?np = Some a'"
    by (simp add: update_conv')
  have x: "\<forall>i. export_error e (chunk_file AUDIO_CHUNKS_DIR i) = None" using assms(3) by simp
  show ?thesis
    unfolding chunk_audio_split n fst_conv snd_conv
    by (rule split_audio_run[OF m _ x]) simp
qed

lemma quiet_env_fields:
  "normalize_effect quiet_env a = Some a" "export_error quiet_env q = None"
  "realtime_stt_installed quiet_env" "transcribe_worker quiet_env p = Exited 0 (u ''some words'')"
  "ollama quiet_env x = Exited 0 (u ''- a point'')"
  "\<not> stop_before_chunk quiet_env i" "\<not> stop_before_part quiet_env i"
  by (simp_all add: quiet_env_def)

lemma recovery_chunks:
  "chunk_audio quiet_env RECORDING_FILE recovery_world
     = (Return (map (chunk_file AUDIO_CHUNKS_DIR) [0 ..< 5]),
        snd (chunk_audio quiet_env RECORDING_FILE recovery_world))"
proof -
  have m: "map_of (sounds recovery_world) RECORDING_FILE = Some long_audio"
    by (simp add: recovery_world_def new_processor_def)
  have "fst (chunk_audio quiet_env RECORDING_FILE recovery_world)
        = Return (map (chunk_file AUDIO_CHUNKS_DIR)
                       [0 ..< (length (samples long_audio) + 30000 - 1) div 30000])"
    by (rule chunk_audio_run[OF m]) (simp_all add: quiet_env_fields)
  then have "fst (chunk_audio quiet_env RECORDING_FILE recovery_world)
        = Return (map (chunk_file AUDIO_CHUNKS_DIR) [0 ..< 5])"
    by (simp add: long_audio_def)
  then show ?thesis by (metis prod.collapse)
qed

text \<open>
  Claim C1. For every run of the transcription stage or of the summarization stage,
  whatever the collaborators do and whenever \<open>stop()\<close> is called, and for every unit
  index \<open>j\<close>: if the output file of unit \<open>j\<close> (\<open>transcripts/batch_j.txt\<close>, resp.
  \<open>summaries/summary_j.txt\<close>) exists with nonzero size before the run, its content is
  the same after the run and the collaborator is not called for unit \<open>j\<close>. In a run
  that is neither stopped nor ended by an exception, every unit whose file is missing or
  empty is produced: the collaborator is called for it and the file holds what the
  collaborator returned.
\<close>

theorem skip_if_exists:
  "(nonempty_file (files w) (transcript_file j) \<longrightarrow>
      map_of (files (snd (process_audio_batches e p w))) (transcript_file j)
        = map_of (files w) (transcript_file j) \<and>
      (\<forall>x. Call_transcribe_file j x \<notin> set (new_events w (snd (process_audio_batches e p w))))) \<and>
   (nonempty_file (files w) (summary_file j) \<longrightarrow>
      map_of (files (snd (process_summary_batches e w))) (summary_file j)
        = map_of (files w) (summary_file j) \<and>
      (\<forall>x. Call_summarize_text_chunk j x
             \<notin> set (new_events w (snd (process_summary_batches e w))))) \<and>
   (chunk_audio e p w = (Return chunks, wc) \<and> \<not> stop_event w \<and>
    (\<forall>i < length chunks. \<not> stop_before_chunk e i) \<and> j < length chunks \<and>
    \<not> nonempty_file (files w) (transcript_file j) \<longrightarrow>
      fst (process_audio_batches e p w) = Return True \<and>
      map_of (files (snd (process_audio_batches e p w))) (transcript_file j)
        = Some (transcribe_file e (chunks ! j)) \<and>
      Call_transcribe_file j (chunks ! j)
        \<in> set (new_events w (snd (process_audio_batches e p w)))) \<and>
   (map_of (files w) LECTURE_CLEAN_FILE = Some tx \<and>
    split_text_into_chunks tx 500 = Return segments \<and>
    (\<forall>c \<in> set segments. \<exists>s. summarize_text_chunk e c = Return s) \<and> \<not> stop_event w \<and>
    (\<forall>i < length segments. \<not> stop_before_part e i) \<and> j < length segments \<and>
    \<not> nonempty_file (files w) (summary_file j) \<longrightarrow>
      fst (process_summary_batches e w) = Return True \<and>
      (\<forall>s. summarize_text_chunk e (segments ! j) = Return s \<longrightarrow>
           map_of (files (snd (process_summary_batches e w))) (summary_file j) = Some s) \<and>
      Call_summarize_text_chunk j (segments ! j)
        \<in> set (new_events w (snd (process_summary_batches e w))))"
proof (intro conjI impI allI)
  assume a: "nonempty_file (files w) (transcript_file j)"
  show "map_of (files (snd (process_audio_batches e p w))) (transcript_file j)
        = map_of (files w) (transcript_file j)"
    by (rule process_audio_batches_skip(1)[OF a])
  show "Call_transcribe_file j x \<notin> set (new_events w (snd (process_audio_batches e p w)))" for x
    by (rule process_audio_batches_skip(2)[OF a])
next
  assume a: "nonempty_file (files w) (summary_file j)"
  show "map_of (files (snd (process_summary_batches e w))) (summary_file j)
        = map_of (files w) (summary_file j)"
    by (rule process_summary_batches_skip(1)[OF a])
  show "Call_summarize_text_chunk j x \<notin> set (new_events w (snd (process_summary_batches e w)))" for x
    by (rule process_summary_batches_skip(2)[OF a])
next
  assume a: "chunk_audio e p w = (Return chunks, wc) \<and> \<not> stop_event w \<and>
    (\<forall>i < length chunks. \<not> stop_before_chunk e i) \<and> j < length chunks \<and>
    \<not> nonempty_file (files w) (transcript_file j)"
  note d = process_audio_batches_done[of e p w chunks wc "length chunks" j]
  show "fst (process_audio_batches e p w) = Return True" using a d(1) by simp
  show "map_of (files (snd (process_audio_batches e p w))) (transcript_file j)
        = Some (transcribe_file e (chunks ! j))" using a d(2) by simp
  show "Call_transcribe_file j (chunks ! j)
        \<in> set (new_events w (snd (process_audio_batches e p w)))" using a d(3) by simp
next
  assume a: "map_of (files w) LECTURE_CLEAN_FILE = Some tx \<and>
    split_text_into_chunks tx 500 = Return segments \<and>
    (\<forall>c \<in> set segments. \<exists>s. summarize_text_chunk e c = Return s) \<and> \<not> stop_event w \<and>
    (\<forall>i < length segments. \<not> stop_before_part e i) \<and> j < length segments \<and>
    \<not> nonempty_file (files w) (summary_file j)"
  note d = process_summary_batches_done[of w tx segments e "length segments" j]
  show "fst (process_summary_batches e w) = Return True" using a d(1) by simp
  show "map_of (files (snd (process_summary_batches e w))) (summary_file j) = Some s"
    if "summarize_text_chunk e (segments ! j) = Return s" for s
    using a d(3) that by simp
  show "Call_summarize_text_chunk j (segments ! j)
        \<in> set (new_events w (snd (process_summary_batches e w)))" using a d(4) by simp
qed

lemma unit_paths_distinct:
  "transcript_file i \<noteq> summary_file j" "summary_file j \<noteq> transcript_file i"
  "transcript_file i \<noteq> LECTURE_CLEAN_FILE" "summary_file j \<noteq> LECTURE_CLEAN_FILE"
  "LECTURE_CLEAN_FILE \<noteq> transcript_file i" "LECTURE_CLEAN_FILE \<noteq> summary_file j"
  "transcript_file i \<noteq> FINAL_NOTES_FILE" "FINAL_NOTES_FILE \<noteq> summary_file j"
  "FINAL_NOTES_FILE \<noteq> LECTURE_CLEAN_FILE"
  by (simp_all add: transcript_file_eq summary_file_eq LECTURE_CLEAN_FILE_def FINAL_NOTES_FILE_def
        NOTES_DIR_def path_join_def u_def)

lemma quiet_env_results:
  "transcribe_file quiet_env x = u ''some words''"
  "summarize_text_chunk quiet_env c = Return (u ''- a point'')"
  by (simp_all add: transcribe_file_def summarize_text_chunk_def quiet_env_fields strip_def
        isspace_def u_def Let_def)

lemma recovery_world_files:
  "map_of (files recovery_world) (transcript_file j) = (if j = 2 then Some (u ''X'') else None)"
  "map_of (files recovery_world) (summary_file j) = (if j = 2 then Some (u ''S'') else None)"
  "map_of (files recovery_world) LECTURE_CLEAN_FILE = Some (u ''hello world'')"
  "\<not> stop_event recovery_world"
  by (simp_all add: recovery_world_def new_processor_def unit_paths_distinct
        transcript_file_inj summary_file_inj)

lemma hello_world_segments:
  "split_text_into_chunks (u ''hello world'') 500 = Return [u ''hello world'']"
  by (simp add: split_text_into_chunks_def split_ws.simps u_def isspace_def range_step_def Let_def)

theorem skip_if_exists_witness:
  "nonempty_file (files recovery_world) (transcript_file 2) \<and>
   nonempty_file (files recovery_world) (summary_file 2) \<and>
   fst (chunk_audio quiet_env RECORDING_FILE recovery_world)
     = Return (map (chunk_file AUDIO_CHUNKS_DIR) [0 ..< 5]) \<and>
   \<not> stop_event recovery_world \<and>
   (\<forall>i. \<not> stop_before_chunk quiet_env i) \<and> (\<forall>i. \<not> stop_before_part quiet_env i) \<and>
   \<not> nonempty_file (files recovery_world) (transcript_file 0) \<and>
   \<not> nonempty_file (files recovery_world) (summary_file 0) \<and>
   map_of (files recovery_world) LECTURE_CLEAN_FILE = Some (u ''hello world'') \<and>
   split_text_into_chunks (u ''hello world'') 500 = Return [u ''hello world''] \<and>
   (\<forall>c. \<exists>s. summarize_text_chunk quiet_env c = Return s) \<and>
   map_of (files (snd (process_audio_batches quiet_env RECORDING_FILE recovery_world)))
     (transcript_file 2) = Some (u ''X'') \<and>
   map_of (files (snd (process_audio_batches quiet_env RECORDING_FILE recovery_world)))
     (transcript_file 0) = Some (u ''some words'') \<and>
   map_of (files (snd (process_audio_batches quiet_env RECORDING_FILE recovery_world)))
     (transcript_file 1) = Some (u ''some words'') \<and>
   map_of (files (snd (process_audio_batches quiet_env RECORDING_FILE recovery_world)))
     (transcript_file 3) = Some (u ''some words'') \<and>
   map_of (files (snd (process_audio_batches quiet_env RECORDING_FILE recovery_world)))
     (transcript_file 4) = Some (u ''some words'') \<and>
   Call_transcribe_file 2 (chunk_file AUDIO_CHUNKS_DIR 2)
     \<notin> set (new_events recovery_world
                (snd (process_audio_batches quiet_env RECORDING_FILE recovery_world))) \<and>
   Call_transcribe_file 0 (chunk_file AUDIO_CHUNKS_DIR 0)
     \<in> set (new_events recovery_world
                (snd (process_audio_batches quiet_env RECORDING_FILE recovery_world))) \<and>
   map_of (files (snd (process_summary_batches quiet_env recovery_world))) (summary_file 2)
     = Some (u ''S'') \<and>
   map_of (files (snd (process_summary_batches quiet_env recovery_world))) (summary_file 0)
     = Some (u ''- a point'')"
proof -
  let ?chunks = "map (chunk_file AUDIO_CHUNKS_DIR) [0 ..< 5]"
  let ?wc = "snd (chunk_audio quiet_env RECORDING_FILE recovery_world)"
  note T = skip_if_exists[where w = recovery_world and e = quiet_env and p = RECORDING_FILE
                and chunks = ?chunks and wc = ?wc and tx = "u ''hello world''"
                and segments = "[u ''hello world'']"]
  have h1: "nonempty_file (files recovery_world) (transcript_file 2)"
   and h2: "nonempty_file (files recovery_world) (summary_file 2)"
   and h3: "\<not> nonempty_file (files recovery_world) (transcript_file 0)"
           "\<not> nonempty_file (files recovery_world) (transcript_file 1)"
           "\<not> nonempty_file (files recovery_world) (transcript_file 3)"
           "\<not> nonempty_file (files recovery_world) (transcript_file 4)"
   and h4: "\<not> nonempty_file (files recovery_world) (summary_file 0)"
    by (simp_all add: nonempty_file_def recovery_world_files u_def)
  have c: "chunk_audio quiet_env RECORDING_FILE recovery_world = (Return ?chunks, ?wc)"
    by (rule recovery_chunks)
  have q: "\<forall>i. \<not> stop_before_chunk quiet_env i" "\<forall>i. \<not> stop_before_part quiet_env i"
          "\<forall>c. \<exists>s. summarize_text_chunk quiet_env c = Return s"
    by (simp_all add: quiet_env_fields quiet_env_results)
  note f = recovery_world_files(3,4) hello_world_segments
  have a2: "map_of (files (snd (process_audio_batches quiet_env RECORDING_FILE recovery_world)))
     (transcript_file 2) = Some (u ''X'')"
    and n2: "Call_transcribe_file 2 (chunk_file AUDIO_CHUNKS_DIR 2)
     \<notin> set (new_events recovery_world
                (snd (process_audio_batches quiet_env RECORDING_FILE recovery_world)))"
    and s2: "map_of (files (snd (process_summary_batches quiet_env recovery_world))) (summary_file 2)
     = Some (u ''S'')"
    using T[of 2] h1 h2 by (simp_all add: recovery_world_files)
  have a0: "map_of (files (snd (process_audio_batches quiet_env RECORDING_FILE recovery_world)))
     (transcript_file 0) = Some (u ''some words'')"
    and i0: "Call_transcribe_file 0 (chunk_file AUDIO_CHUNKS_DIR 0)
     \<in> set (new_events recovery_world
                (snd (process_audio_batches quiet_env RECORDING_FILE recovery_world)))"
    and s0: "map_of (files (snd (process_summary_batches quiet_env recovery_world))) (summary_file 0)
     = Some (u ''- a point'')"
    using T[of 0] c q f h3 h4 by (simp_all add: quiet_env_results)
  have a1: "map_of (files (snd (process_audio_batches quiet_env RECORDING_FILE recovery_world)))
     (transcript_file 1) = Some (u ''some words'')"
    using T[of 1] c q f h3 by (simp add: quiet_env_results)
  have a3: "map_of (files (snd (process_audio_batches quiet_env RECORDING_FILE recovery_world)))
     (transcript_file 3) = Some (u ''some words'')"
    using T[of 3] c q f h3 by (simp add: quiet_env_results)
  have a4: "map_of (files (snd (process_audio_batches quiet_env RECORDING_FILE recovery_world)))
     (transcript_file 4) = Some (u ''some words'')"
    using T[of 4] c q f h3 by (simp add: quiet_env_results)
  have c': "fst (chunk_audio quiet_env RECORDING_FILE recovery_world) = Return ?chunks"
    by (metis c fst_conv)
  show ?thesis
    using h1 h2 c' f q h3(1) h4 a2 a0 a1 a3 a4 n2 i0 s2 s0 by blast
qed

section \<open>Stop semantics\<close>

lemma process_audio_batches_stopped:
  assumes "stop_seen (stop_before_chunk e) w 0 k" "k \<le> j"
  shows "map_of (files (snd (process_audio_batches e p w))) (transcript_file j)
           = map_of (files w) (transcript_file j)"
    and "Call_transcribe_file j x \<notin> set (new_events w (snd (process_audio_batches e p w)))"
proof -
  have "map_of (files (snd (process_audio_batches e p w))) (transcript_file j)
           = map_of (files w) (transcript_file j) \<and>
        Call_transcribe_file j x \<notin> set (new_events w (snd (process_audio_batches e p w)))"
  proof (cases rule: process_audio_batches_cases[of e p w])
    case (raised m w4)
    then show ?thesis using chunk_audio_fields[OF raised(1)] by (simp add: new_events_def)
  next
    case (no_chunks w4)
    then show ?thesis using chunk_audio_fields[OF no_chunks(1)] by (simp add: new_events_def)
  next
    case (ran chunks w4)
    let ?w5 = "w4\<lparr>transcription_progress := 2 / 10\<rparr>"
    let ?w6 = "transcribe_loop e (length chunks) 0 chunks ?w5"
    have f5: "files ?w5 = files w" and t5: "trace ?w5 = trace w @ [Enter_process_audio_batches]"
      and s5: "stop_event ?w5 = stop_event w"
      using chunk_audio_fields[OF ran(1)] by simp_all
    have seen: "stop_seen (stop_before_chunk e) ?w5 0 k"
      using assms(1) s5 by (simp add: stop_seen_def)
    have a: "map_of (files ?w6) (transcript_file j) = map_of (files w) (transcript_file j)"
      using transcribe_loop_stop_files[OF le0 seen assms(2)] f5 by simp
    obtain evs where evs: "trace ?w6 = trace ?w5 @ evs"
      and sub: "set evs \<subseteq> {Call_transcribe_file j' (chunks ! (j' - 0)) | j'. 0 \<le> j' \<and> j' < k}"
      using transcribe_loop_trace_stopped[OF le0 seen, where t = "length chunks" and chunks = chunks] by blast
    have tr: "trace ?w6 = trace w @ (Enter_process_audio_batches # evs)"
      using evs t5 by simp
    have "Call_transcribe_file j x \<notin> set evs" using sub assms(2) by auto
    then have b: "Call_transcribe_file j x \<notin> set (new_events w (finish_transcription ?w6))"
      unfolding new_events_def trace_finish tr by simp
    show ?thesis using a b ran(3) by (simp add: files_finish_transcription unit_file_not_output)
  qed
  then show "map_of (files (snd (process_audio_batches e p w))) (transcript_file j)
           = map_of (files w) (transcript_file j)"
    and "Call_transcribe_file j x \<notin> set (new_events w (snd (process_audio_batches e p w)))"
    by simp_all
qed

lemma process_summary_batches_stopped:
  assumes "stop_seen (stop_before_part e) w 0 k" "k \<le> j"
  shows "map_of (files (snd (process_summary_batches e w))) (summary_file j)
           = map_of (files w) (summary_file j)"
    and "Call_summarize_text_chunk j x \<notin> set (new_events w (snd (process_summary_batches e w)))"
proof -
  have "map_of (files (snd (process_summary_batches e w))) (summary_file j)
           = map_of (files w) (summary_file j) \<and>
        Call_summarize_text_chunk j x \<notin> set (new_events w (snd (process_summary_batches e w)))"
  proof (cases rule: process_summary_batches_loop[of e w])
    case (no_loop w1)
    then show ?thesis by (simp add: new_events_def)
  next
    case (loop tx chunks)
    let ?w1 = "begin_summary w"
    let ?w2 = "snd (summarize_loop e (length chunks) 0 chunks ?w1)"
    have seen: "stop_seen (stop_before_part e) ?w1 0 k"
      using assms(1) by (simp add: stop_seen_def begin_summary_fields)
    have a: "map_of (files ?w2) (summary_file j) = map_of (files w) (summary_file j)"
      using summarize_loop_stop_files[OF le0 seen assms(2)] by (simp add: files_begin_summary)
    obtain evs where evs: "trace ?w2 = trace ?w1 @ evs"
      and sub: "set evs \<subseteq> {Call_summarize_text_chunk j' (chunks ! (j' - 0)) | j'. 0 \<le> j' \<and> j' < k}"
      using summarize_loop_trace_stopped[OF le0 seen, where t = "length chunks" and chunks = chunks] by blast
    have tr: "trace ?w2 = trace w @ (Enter_process_summary_batches # evs)"
      using evs by (simp add: begin_summary_fields)
    have "Call_summarize_text_chunk j x \<notin> set evs" using sub assms(2) by auto
    then have b: "Call_summarize_text_chunk j x
                  \<notin> set (new_events w (snd (process_summary_batches e w)))"
      unfolding new_events_def loop(5) tr by simp
    show ?thesis using a b loop(4) by (simp add: unit_file_not_output)
  qed
  then show "map_of (files (snd (process_summary_batches e w))) (summary_file j)
           = map_of (files w) (summary_file j)"
    and "Call_summarize_text_chunk j x \<notin> set (new_events w (snd (process_summary_batches e w)))"
    by simp_all
qed

text \<open>
  Claim C2. For every run of a stage: if the stop flag is found set at the look made for
  unit \<open>k\<close> (it was set before the run, or \<open>stop()\<close> is called before one of the looks
  \<open>0, \<dots>, k\<close>), the stage writes no unit file of index \<open>k\<close> or more and calls no
  collaborator for such a unit; if the flag is not set before the look for unit \<open>k\<close>,
  the units \<open>0, \<dots>, k - 1\<close> are on disk when the stage returns; and \<open>is_running\<close> is
  false when the pipeline returns. With the flag set before unit 3 of 5 on an empty
  transcript directory, exactly the units 0, 1, 2 exist.
\<close>

theorem stop_semantics:
  "(stop_seen (stop_before_chunk e) w 0 k \<and> k \<le> j \<longrightarrow>
      map_of (files (snd (process_audio_batches e p w))) (transcript_file j)
        = map_of (files w) (transcript_file j) \<and>
      (\<forall>x. Call_transcribe_file j x \<notin> set (new_events w (snd (process_audio_batches e p w))))) \<and>
   (chunk_audio e p w = (Return chunks, wc) \<and> \<not> stop_event w \<and>
    (\<forall>i < k. \<not> stop_before_chunk e i) \<and> k \<le> length chunks \<and> j < k \<longrightarrow>
      map_of (files (snd (process_audio_batches e p w))) (transcript_file j) \<noteq> None) \<and>
   (stop_seen (stop_before_part e) w 0 k \<and> k \<le> j \<longrightarrow>
      map_of (files (snd (process_summary_batches e w))) (summary_file j)
        = map_of (files w) (summary_file j) \<and>
      (\<forall>x. Call_summarize_text_chunk j x
             \<notin> set (new_events w (snd (process_summary_batches e w))))) \<and>
   (map_of (files w) LECTURE_CLEAN_FILE = Some tx \<and>
    split_text_into_chunks tx 500 = Return segments \<and>
    (\<forall>c \<in> set segments. \<exists>s. summarize_text_chunk e c = Return s) \<and> \<not> stop_event w \<and>
    (\<forall>i < k. \<not> stop_before_part e i) \<and> k \<le> length segments \<and> j < k \<longrightarrow>
      map_of (files (snd (process_summary_batches e w))) (summary_file j) \<noteq> None) \<and>
   \<not> is_running (run_pipeline e w) \<and> \<not> is_running (start_batch_processing e w)"
proof (intro conjI impI allI)
  assume a: "stop_seen (stop_before_chunk e) w 0 k \<and> k \<le> j"
  show "map_of (files (snd (process_audio_batches e p w))) (transcript_file j)
        = map_of (files w) (transcript_file j)"
    using process_audio_batches_stopped(1) a by blast
  show "Call_transcribe_file j x \<notin> set (new_events w (snd (process_audio_batches e p w)))" for x
    using process_audio_batches_stopped(2) a by blast
next
  assume a: "chunk_audio e p w = (Return chunks, wc) \<and> \<not> stop_event w \<and>
    (\<forall>i < k. \<not> stop_before_chunk e i) \<and> k \<le> length chunks \<and> j < k"
  show "map_of (files (snd (process_audio_batches e p w))) (transcript_file j) \<noteq> None"
    using process_audio_batches_done(2)[of e p w chunks wc k j] a
    by (auto simp: nonempty_file_def split: option.splits if_splits)
next
  assume a: "stop_seen (stop_before_part e) w 0 k \<and> k \<le> j"
  show "map_of (files (snd (process_summary_batches e w))) (summary_file j)
        = map_of (files w) (summary_file j)"
    using process_summary_batches_stopped(1) a by blast
  show "Call_summarize_text_chunk j x \<notin> set (new_events w (snd (process_summary_batches e w)))" for x
    using process_summary_batches_stopped(2) a by blast
next
  assume a: "map_of (files w) LECTURE_CLEAN_FILE = Some tx \<and>
    split_text_into_chunks tx 500 = Return segments \<and>
    (\<forall>c \<in> set segments. \<exists>s. summarize_text_chunk e c = Return s) \<and> \<not> stop_event w \<and>
    (\<forall>i < k. \<not> stop_before_part e i) \<and> k \<le> length segments \<and> j < k"
  then have jl: "segments ! j \<in> set segments" by simp
  then obtain s where s: "summarize_text_chunk e (segments ! j) = Return s" using a by blast
  note d = process_summary_batches_done[of w tx segments e k j]
  show "map_of (files (snd (process_summary_batches e w))) (summary_file j) \<noteq> None"
  proof (cases "nonempty_file (files w) (summary_file j)")
    case True
    then show ?thesis using d(2) a by (auto simp: nonempty_file_def split: option.splits)
  next
    case False
    then show ?thesis using d(3)[OF _ _ _ _ _ _ _ False s] a by simp
  qed
next
  show "\<not> is_running (run_pipeline e w)"
    by (simp add: run_pipeline_def Let_def)
  show "\<not> is_running (start_batch_processing e w)"
    by (simp add: start_batch_processing_def run_pipeline_def Let_def)
qed

lemma long_audio_chunks:
  assumes "map_of (sounds w) RECORDING_FILE = Some long_audio"
      and "normalize_effect e long_audio = Some long_audio" "\<forall>q. export_error e q = None"
  shows "fst (chunk_audio e RECORDING_FILE w) = Return (map (chunk_file AUDIO_CHUNKS_DIR) [0 ..< 5])"
proof -
  have "fst (chunk_audio e RECORDING_FILE w)
        = Return (map (chunk_file AUDIO_CHUNKS_DIR)
                       [0 ..< (length (samples long_audio) + 30000 - 1) div 30000])"
    by (rule chunk_audio_run[OF assms])
  then show ?thesis by (simp add: long_audio_def)
qed

lemma five_chunk_world_fields:
  "map_of (sounds five_chunk_world) RECORDING_FILE = Some long_audio"
  "map_of (files five_chunk_world) (transcript_file j) = None"
  "map_of (files five_chunk_world) (summary_file j) = None"
  "map_of (files five_chunk_world) LECTURE_CLEAN_FILE = Some (u ''hello world'')"
  "\<not> stop_event five_chunk_world"
  by (simp_all add: five_chunk_world_def new_processor_def unit_paths_distinct)

lemma stop_env_fields:
  "normalize_effect stop3_env a = Some a" "export_error stop3_env q = None"
  "stop_before_chunk stop3_env i \<longleftrightarrow> i = 3"
  "stop_before_chunk stop0_env i \<longleftrightarrow> i = 0" "stop_before_part stop0_env i \<longleftrightarrow> i = 0"
  by (simp_all add: stop3_env_def stop0_env_def quiet_env_def)

theorem stop_semantics_witness:
  "stop_seen (stop_before_chunk stop3_env) five_chunk_world 0 3 \<and>
   fst (chunk_audio stop3_env RECORDING_FILE five_chunk_world)
     = Return (map (chunk_file AUDIO_CHUNKS_DIR) [0 ..< 5]) \<and>
   \<not> stop_event five_chunk_world \<and>
   \<not> stop_before_chunk stop3_env 0 \<and> \<not> stop_before_chunk stop3_env 1 \<and>
   \<not> stop_before_chunk stop3_env 2 \<and>
   map_of (files (snd (process_audio_batches stop3_env RECORDING_FILE five_chunk_world)))
     (transcript_file 0) \<noteq> None \<and>
   map_of (files (snd (process_audio_batches stop3_env RECORDING_FILE five_chunk_world)))
     (transcript_file 1) \<noteq> None \<and>
   map_of (files (snd (process_audio_batches stop3_env RECORDING_FILE five_chunk_world)))
     (transcript_file 2) \<noteq> None \<and>
   map_of (files (snd (process_audio_batches stop3_env RECORDING_FILE five_chunk_world)))
     (transcript_file 3) = None \<and>
   map_of (files (snd (process_audio_batches stop3_env RECORDING_FILE five_chunk_world)))
     (transcript_file 4) = None \<and>
   \<not> is_running (start_batch_processing stop3_env five_chunk_world) \<and>
   stop_seen (stop_before_part stop0_env) five_chunk_world 0 0 \<and>
   map_of (files (snd (process_summary_batches stop0_env five_chunk_world))) (summary_file 0)
     = None \<and>
   map_of (files five_chunk_world) LECTURE_CLEAN_FILE = Some (u ''hello world'') \<and>
   split_text_into_chunks (u ''hello world'') 500 = Return [u ''hello world''] \<and>
   (\<forall>c. \<exists>s. summarize_text_chunk quiet_env c = Return s) \<and>
   \<not> stop_before_part quiet_env 0 \<and>
   map_of (files (snd (process_summary_batches quiet_env five_chunk_world))) (summary_file 0)
     \<noteq> None"
proof -
  let ?chunks = "map (chunk_file AUDIO_CHUNKS_DIR) [0 ..< 5]"
  let ?wc = "snd (chunk_audio stop3_env RECORDING_FILE five_chunk_world)"
  have c': "fst (chunk_audio stop3_env RECORDING_FILE five_chunk_world) = Return ?chunks"
    by (rule long_audio_chunks) (simp_all add: five_chunk_world_fields stop_env_fields)
  then have c: "chunk_audio stop3_env RECORDING_FILE five_chunk_world = (Return ?chunks, ?wc)"
    by (metis prod.collapse)
  have seen3: "stop_seen (stop_before_chunk stop3_env) five_chunk_world 0 3"
    by (simp add: stop_seen_def stop_env_fields)
  have seen0: "stop_seen (stop_before_part stop0_env) five_chunk_world 0 0"
    by (simp add: stop_seen_def stop_env_fields)
  have ns: "\<not> stop_before_chunk stop3_env 0" "\<not> stop_before_chunk stop3_env 1"
           "\<not> stop_before_chunk stop3_env 2" "\<forall>i<3. \<not> stop_before_chunk stop3_env i"
    by (simp_all add: stop_env_fields)
  note f = five_chunk_world_fields
  note T3 = stop_semantics[where w = five_chunk_world and e = stop3_env and p = RECORDING_FILE
                and chunks = ?chunks and wc = ?wc and k = 3]
  have u0: "map_of (files (snd (process_audio_batches stop3_env RECORDING_FILE five_chunk_world)))
     (transcript_file 0) \<noteq> None"
    using T3[of 0] c ns(4) f(5) by simp
  have u1: "map_of (files (snd (process_audio_batches stop3_env RECORDING_FILE five_chunk_world)))
     (transcript_file 1) \<noteq> None"
    using T3[of 1] c ns(4) f(5) by simp
  have u2: "map_of (files (snd (process_audio_batches stop3_env RECORDING_FILE five_chunk_world)))
     (transcript_file 2) \<noteq> None"
    using T3[of 2] c ns(4) f(5) by simp
  have u3: "map_of (files (snd (process_audio_batches stop3_env RECORDING_FILE five_chunk_world)))
     (transcript_file 3) = None"
    using T3[of 3] seen3 by (simp add: f)
  have u4: "map_of (files (snd (process_audio_batches stop3_env RECORDING_FILE five_chunk_world)))
     (transcript_file 4) = None"
    using T3[of 4] seen3 by (simp add: f)
  have r: "\<not> is_running (start_batch_processing stop3_env five_chunk_world)"
    using T3[of 0] by simp
  have s0: "map_of (files (snd (process_summary_batches stop0_env five_chunk_world))) (summary_file 0)
     = None"
    using stop_semantics[where w = five_chunk_world and e = stop0_env and k = 0 and j = 0] seen0
    by (simp add: f)
  have q: "\<forall>c. \<exists>s. summarize_text_chunk quiet_env c = Return s" "\<not> stop_before_part quiet_env 0"
    by (simp_all add: quiet_env_results quiet_env_fields)
  have s1: "map_of (files (snd (process_summary_batches quiet_env five_chunk_world))) (summary_file 0)
     \<noteq> None"
    using stop_semantics[where w = five_chunk_world and e = quiet_env and k = 1 and j = 0
            and tx = "u ''hello world''" and segments = "[u ''hello world'']"]
          f(4,5) hello_world_segments q
    by simp
  show ?thesis
    using seen3 c' f(5) ns(1,2,3) u0 u1 u2 u3 u4 r seen0 s0 f(4) hello_world_segments q s1
    by blast
qed

section \<open>A stage that starts with the flag set\<close>

lemma stop_idem: "stop_event w \<Longrightarrow> stop w = w"
  by (simp add: stop_def)

lemma transcribe_loop_stopped: "stop_event w \<Longrightarrow> transcribe_loop e t i chunks w = w"
  by (cases chunks) (simp_all add: transcribe_loop_Cons Let_def stop_idem)


lemma stop_event_transcribe_loop:
  "stop_event w \<Longrightarrow> stop_event (transcribe_loop e t i chunks w)"
  by (simp add: transcribe_loop_stopped)

lemma finish_fields:
  "stop_event (finish_transcription w) = stop_event w"
  "is_running (finish_transcription w) = is_running w"
  "transcription_progress (finish_transcription w) = 1"
  "stop_event (finish_summary w) = stop_event w"
  "is_running (finish_summary w) = is_running w"
  "summarization_progress (finish_summary w) = 1"
  by (simp_all add: finish_transcription_def finish_summary_def write_text_def)



section \<open>The pipeline\<close>

lemma is_running_transcribe_loop:
  "is_running (transcribe_loop e t i chunks w) = is_running w"
  by (induction chunks arbitrary: i w)
     (simp_all add: transcribe_loop_Cons Let_def other_transcribe_unit stop_def)

lemma is_running_summarize_loop:
  "is_running (snd (summarize_loop e t i chunks w)) = is_running w"
  by (induction chunks arbitrary: i w)
     (simp_all add: summarize_loop_step other_summarize_unit stop_def)

lemma is_running_process_audio_batches:
  "is_running (snd (process_audio_batches e p w)) = is_running w"
proof (cases rule: process_audio_batches_cases[of e p w])
  case (raised m w4)
  then show ?thesis using chunk_audio_fields[OF raised(1)] by simp
next
  case (no_chunks w4)
  then show ?thesis using chunk_audio_fields[OF no_chunks(1)] by simp
next
  case (ran chunks w4)
  then show ?thesis using chunk_audio_fields[OF ran(1)]
    by (simp add: finish_fields is_running_transcribe_loop)
qed

lemma is_running_process_summary_batches:
  "is_running (snd (process_summary_batches e w)) = is_running w"
proof (cases rule: process_summary_batches_cases[of w e])
  case (raised tx chunks m w2)
  then show ?thesis
    using is_running_summarize_loop[of e "length chunks" 0 chunks "begin_summary w"]
    by (simp add: begin_summary_fields)
next
  case (ran tx chunks x w2)
  then show ?thesis
    using is_running_summarize_loop[of e "length chunks" 0 chunks "begin_summary w"]
    by (simp add: begin_summary_fields finish_fields)
qed (simp_all add: begin_summary_fields)

lemma run_pipeline_eq:
  "run_pipeline e w =
     (case fst (process_audio_batches e RECORDING_FILE w) of
        Raise m \<Rightarrow>
          (snd (process_audio_batches e RECORDING_FILE w))
            \<lparr>status_message := u ''Error: '' @ m, is_running := False\<rparr>
      | Return success_stt \<Rightarrow>
          if success_stt
          then (case fst (process_summary_batches e (snd (process_audio_batches e RECORDING_FILE w))) of
                  Raise m \<Rightarrow>
                    (snd (process_summary_batches e (snd (process_audio_batches e RECORDING_FILE w))))
                      \<lparr>status_message := u ''Error: '' @ m, is_running := False\<rparr>
                | Return x \<Rightarrow>
                    (snd (process_summary_batches e (snd (process_audio_batches e RECORDING_FILE w))))
                      \<lparr>is_running := False\<rparr>)
          else (snd (process_audio_batches e RECORDING_FILE w))\<lparr>is_running := False\<rparr>)"
  by (simp add: run_pipeline_def Let_def split_def split: result.splits)

text \<open>
  Claim C9. For every pipeline run: the button handler sets \<open>is_running\<close> before the
  pipeline starts, and neither stage changes it, so it is true while the pipeline runs;
  it is false when \<open>run_pipeline\<close> returns, on every path (success, failure of the
  chunker, early stop, exception); an exception raised by either stage ends in the status
  message as \<open>Error: \<close> followed by its message. \<open>run_pipeline\<close> itself returns a world
  and raises nothing: its \<open>except\<close> clause takes every exception of the stages.
\<close>

theorem is_running_lifecycle:
  "start_batch_processing e w = run_pipeline e (w\<lparr>is_running := True\<rparr>) \<and>
   is_running (w\<lparr>is_running := True\<rparr>) \<and>
   is_running (snd (process_audio_batches e p w)) = is_running w \<and>
   is_running (snd (process_summary_batches e w)) = is_running w \<and>
   \<not> is_running (run_pipeline e w) \<and>
   \<not> is_running (start_batch_processing e w) \<and>
   (fst (process_audio_batches e RECORDING_FILE w) = Raise m \<longrightarrow>
      status_message (run_pipeline e w) = u ''Error: '' @ m) \<and>
   (fst (process_audio_batches e RECORDING_FILE w) = Return True \<and>
    fst (process_summary_batches e (snd (process_audio_batches e RECORDING_FILE w))) = Raise m \<longrightarrow>
      status_message (run_pipeline e w) = u ''Error: '' @ m)"
proof (intro conjI impI)
  show "start_batch_processing e w = run_pipeline e (w\<lparr>is_running := True\<rparr>)"
    by (simp add: start_batch_processing_def)
  show "is_running (w\<lparr>is_running := True\<rparr>)" by simp
  show "is_running (snd (process_audio_batches e p w)) = is_running w"
    by (rule is_running_process_audio_batches)
  show "is_running (snd (process_summary_batches e w)) = is_running w"
    by (rule is_running_process_summary_batches)
  show "\<not> is_running (run_pipeline e w)"
    by (simp add: run_pipeline_def Let_def)
  show "\<not> is_running (start_batch_processing e w)"
    by (simp add: start_batch_processing_def run_pipeline_def Let_def)
next
  assume "fst (process_audio_batches e RECORDING_FILE w) = Raise m"
  then show "status_message (run_pipeline e w) = u ''Error: '' @ m"
    by (simp add: run_pipeline_eq)
next
  assume "fst (process_audio_batches e RECORDING_FILE w) = Return True \<and>
    fst (process_summary_batches e (snd (process_audio_batches e RECORDING_FILE w))) = Raise m"
  then show "status_message (run_pipeline e w) = u ''Error: '' @ m"
    by (simp add: run_pipeline_eq)
qed

lemmas eval_defs =
  run_pipeline_def process_audio_batches_def process_summary_batches_def
  normalize_step_def split_audio_def merge_transcripts_def compile_final_notes_def
  transcribe_loop.simps summarize_loop.simps export_chunks.simps
  transcribe_file_def summarize_text_chunk_def split_text_into_chunks_def
  write_text_def log_event_def nonempty_file_def listdir_def slice_ms_def
  transcript_file_eq summary_file_eq fmt03d_small
  TRANSCRIPT_DIR_def SUMMARY_DIR_def NOTES_DIR_def FINAL_NOTES_FILE_def LECTURE_CLEAN_FILE_def
  RECORDING_FILE_def AUDIO_CHUNKS_DIR_def path_join_def
  replace_def strip_def isspace_def range_step_def split_ws.simps
  new_processor_def seven_ms_world_def seven_ms_audio_def stop_def Let_def u_def

lemma seven_ceil: "nat \<lceil>rat_of_nat 7 / rat_of_nat 30000\<rceil> = 1"
proof -
  have "nat \<lceil>rat_of_nat 7 / rat_of_nat 30000\<rceil> = (7 + 30000 - 1) div 30000"
    by (rule ceil_div_nat) simp
  then show ?thesis by simp
qed

lemma seven_ceil': "nat \<lceil>(7::rat) / 30000\<rceil> = 1"
  using seven_ceil by simp

theorem is_running_lifecycle_witness:
  "fst (process_audio_batches disk_full_env RECORDING_FILE seven_ms_world)
     = Raise (u ''disk full'') \<and>
   status_message (run_pipeline disk_full_env seven_ms_world) = u ''Error: disk full'' \<and>
   \<not> is_running (start_batch_processing disk_full_env seven_ms_world) \<and>
   fst (process_audio_batches ollama_crash_env RECORDING_FILE seven_ms_world) = Return True \<and>
   fst (process_summary_batches ollama_crash_env
          (snd (process_audio_batches ollama_crash_env RECORDING_FILE seven_ms_world)))
     = Raise (u ''permission denied'') \<and>
   status_message (run_pipeline ollama_crash_env seven_ms_world)
     = u ''Error: permission denied'' \<and>
   \<not> is_running (run_pipeline ollama_crash_env seven_ms_world) \<and>
   is_running (snd (process_audio_batches ollama_crash_env RECORDING_FILE
                      (seven_ms_world\<lparr>is_running := True\<rparr>)))"
proof -
  have h1: "fst (process_audio_batches disk_full_env RECORDING_FILE seven_ms_world)
     = Raise (u ''disk full'')"
    by (simp add: eval_defs disk_full_env_def quiet_env_def seven_ceil')
  have h2: "fst (process_audio_batches ollama_crash_env RECORDING_FILE seven_ms_world) = Return True"
    by (simp add: eval_defs ollama_crash_env_def quiet_env_def seven_ceil')
  have h3: "fst (process_summary_batches ollama_crash_env
          (snd (process_audio_batches ollama_crash_env RECORDING_FILE seven_ms_world)))
     = Raise (u ''permission denied'')"
    by (simp add: eval_defs ollama_crash_env_def quiet_env_def seven_ceil')
  note T1 = is_running_lifecycle[where e = disk_full_env and w = seven_ms_world
              and m = "u ''disk full''"]
  note T2 = is_running_lifecycle[where e = ollama_crash_env and w = seven_ms_world
              and m = "u ''permission denied''"]
  note T3 = is_running_lifecycle[where e = ollama_crash_env and p = RECORDING_FILE
              and w = "seven_ms_world\<lparr>is_running := True\<rparr>"]
  have c1: "status_message (run_pipeline disk_full_env seven_ms_world) = u ''Error: disk full''"
    using T1 h1 by (simp add: u_def)
  have c2: "\<not> is_running (start_batch_processing disk_full_env seven_ms_world)"
    using T1 by blast
  have c3: "status_message (run_pipeline ollama_crash_env seven_ms_world)
     = u ''Error: permission denied''"
    using T2 h2 h3 by (simp add: u_def)
  have c4: "\<not> is_running (run_pipeline ollama_crash_env seven_ms_world)"
    using T2 by blast
  have c5: "is_running (snd (process_audio_batches ollama_crash_env RECORDING_FILE
                      (seven_ms_world\<lparr>is_running := True\<rparr>)))"
    using T3 by simp
  show ?thesis using h1 c1 c2 h2 h3 c3 c4 c5 by blast
qed

section \<open>The order of the stages\<close>



lemma new_events_append: "trace w' = trace w @ evs \<Longrightarrow> new_events w w' = evs"
  by (simp add: new_events_def)







section \<open>Failures of a single unit\<close>

lemma transcribe_file_failure:
  "realtime_stt_installed e \<Longrightarrow> \<forall>out. transcribe_worker e c \<noteq> Exited 0 out \<Longrightarrow>
   transcribe_file e c = []"
  by (auto simp: transcribe_file_def split: proc_outcome.splits)

lemma summarize_text_chunk_not_found:
  "ollama e (summary_prompt c) = File_not_found \<Longrightarrow>
   summarize_text_chunk e c = Return (u ''[Error: Ollama not found]'')"
  by (simp add: summarize_text_chunk_def summary_prompt_def Let_def)

lemma os_remove_files:
  "map_of (files (os_remove p w)) q = (if q = p then None else map_of (files w) q)"
  "stop_event (os_remove p w) = stop_event w"
  by (simp_all add: os_remove_def delete_conv')

text \<open>
  Claim C4, as amended. A transcription subprocess that exits with a non-zero code or
  cannot be run gives the empty string, and a summarization backend whose binary is
  absent gives the sentinel string. Such a failure does not end the stage: the stage
  returns True, the failure result is the content of the unit's file, and the other
  units are written. A failed summarization unit, whose file holds the sentinel, counts
  as processed: no re-run of the stage calls the collaborator for it or changes its
  file, until the file is deleted; after \<open>os.remove\<close> the next run calls the collaborator
  for it again. A failed transcription unit, whose file is empty, does not count as
  processed: every re-run that reaches the unit calls the collaborator for it again and
  overwrites the file.
\<close>

theorem soft_failures:
  "(realtime_stt_installed e \<and> (\<forall>out. transcribe_worker e c \<noteq> Exited 0 out) \<longrightarrow>
      transcribe_file e c = []) \<and>
   (chunk_audio e p w = (Return chunks, wc) \<and> \<not> stop_event w \<and>
    (\<forall>i < length chunks. \<not> stop_before_chunk e i) \<and> j < length chunks \<and>
    \<not> nonempty_file (files w) (transcript_file j) \<and> transcribe_file e (chunks ! j) = [] \<longrightarrow>
      fst (process_audio_batches e p w) = Return True \<and>
      map_of (files (snd (process_audio_batches e p w))) (transcript_file j) = Some [] \<and>
      (\<forall>i < length chunks.
         map_of (files (snd (process_audio_batches e p w))) (transcript_file i) \<noteq> None)) \<and>
   (map_of (files w) (transcript_file j) = Some [] \<and>
    chunk_audio e p w = (Return chunks, wc) \<and> \<not> stop_event w \<and>
    (\<forall>i < length chunks. \<not> stop_before_chunk e i) \<and> j < length chunks \<longrightarrow>
      Call_transcribe_file j (chunks ! j)
        \<in> set (new_events w (snd (process_audio_batches e p w))) \<and>
      map_of (files (snd (process_audio_batches e p w))) (transcript_file j)
        = Some (transcribe_file e (chunks ! j))) \<and>
   (ollama e (summary_prompt c) = File_not_found \<longrightarrow>
      summarize_text_chunk e c = Return (u ''[Error: Ollama not found]'')) \<and>
   (map_of (files w) LECTURE_CLEAN_FILE = Some tx \<and>
    split_text_into_chunks tx 500 = Return segments \<and>
    (\<forall>c \<in> set segments. \<exists>s. summarize_text_chunk e c = Return s) \<and> \<not> stop_event w \<and>
    (\<forall>i < length segments. \<not> stop_before_part e i) \<and> j < length segments \<and>
    \<not> nonempty_file (files w) (summary_file j) \<and>
    summarize_text_chunk e (segments ! j) = Return (u ''[Error: Ollama not found]'') \<longrightarrow>
      fst (process_summary_batches e w) = Return True \<and>
      map_of (files (snd (process_summary_batches e w))) (summary_file j)
        = Some (u ''[Error: Ollama not found]'')) \<and>
   (map_of (files w) (summary_file j) = Some (u ''[Error: Ollama not found]'') \<longrightarrow>
      map_of (files (snd (process_summary_batches e w))) (summary_file j)
        = Some (u ''[Error: Ollama not found]'') \<and>
      (\<forall>x. Call_summarize_text_chunk j x
             \<notin> set (new_events w (snd (process_summary_batches e w))))) \<and>
   (map_of (files w) LECTURE_CLEAN_FILE = Some tx \<and>
    split_text_into_chunks tx 500 = Return segments \<and>
    (\<forall>c \<in> set segments. \<exists>s. summarize_text_chunk e c = Return s) \<and> \<not> stop_event w \<and>
    (\<forall>i < length segments. \<not> stop_before_part e i) \<and> j < length segments \<longrightarrow>
      Call_summarize_text_chunk j (segments ! j)
        \<in> set (new_events (os_remove (summary_file j) w)
                   (snd (process_summary_batches e (os_remove (summary_file j) w)))))"
proof (intro conjI impI allI)
  assume "realtime_stt_installed e \<and> (\<forall>out. transcribe_worker e c \<noteq> Exited 0 out)"
  then show "transcribe_file e c = []" using transcribe_file_failure by blast
next
  assume a: "chunk_audio e p w = (Return chunks, wc) \<and> \<not> stop_event w \<and>
    (\<forall>i < length chunks. \<not> stop_before_chunk e i) \<and> j < length chunks \<and>
    \<not> nonempty_file (files w) (transcript_file j) \<and> transcribe_file e (chunks ! j) = []"
  note d = process_audio_batches_done[of e p w chunks wc "length chunks"]
  show "fst (process_audio_batches e p w) = Return True" using d(1)[of j] a by simp
  show "map_of (files (snd (process_audio_batches e p w))) (transcript_file j) = Some []"
    using d(2)[of j] a by simp
  show "map_of (files (snd (process_audio_batches e p w))) (transcript_file i) \<noteq> None"
    if "i < length chunks" for i
    using d(2)[of i] a that by (auto simp: nonempty_file_def split: option.splits if_splits)
next
  assume a: "map_of (files w) (transcript_file j) = Some [] \<and>
    chunk_audio e p w = (Return chunks, wc) \<and> \<not> stop_event w \<and>
    (\<forall>i < length chunks. \<not> stop_before_chunk e i) \<and> j < length chunks"
  then have n: "\<not> nonempty_file (files w) (transcript_file j)" by (simp add: nonempty_file_def)
  note d = process_audio_batches_done[of e p w chunks wc "length chunks" j]
  show "Call_transcribe_file j (chunks ! j) \<in> set (new_events w (snd (process_audio_batches e p w)))"
    using d(3) a n by simp
  show "map_of (files (snd (process_audio_batches e p w))) (transcript_file j)
        = Some (transcribe_file e (chunks ! j))"
    using d(2) a n by simp
next
  assume "ollama e (summary_prompt c) = File_not_found"
  then show "summarize_text_chunk e c = Return (u ''[Error: Ollama not found]'')"
    by (rule summarize_text_chunk_not_found)
next
  assume a: "map_of (files w) LECTURE_CLEAN_FILE = Some tx \<and>
    split_text_into_chunks tx 500 = Return segments \<and>
    (\<forall>c \<in> set segments. \<exists>s. summarize_text_chunk e c = Return s) \<and> \<not> stop_event w \<and>
    (\<forall>i < length segments. \<not> stop_before_part e i) \<and> j < length segments \<and>
    \<not> nonempty_file (files w) (summary_file j) \<and>
    summarize_text_chunk e (segments ! j) = Return (u ''[Error: Ollama not found]'')"
  note d = process_summary_batches_done[of w tx segments e "length segments" j]
  show "fst (process_summary_batches e w) = Return True" using d(1) a by simp
  show "map_of (files (snd (process_summary_batches e w))) (summary_file j)
        = Some (u ''[Error: Ollama not found]'')"
    using d(3) a by simp
next
  assume a: "map_of (files w) (summary_file j) = Some (u ''[Error: Ollama not found]'')"
  then have n: "nonempty_file (files w) (summary_file j)" by (simp add: nonempty_file_def u_def)
  show "map_of (files (snd (process_summary_batches e w))) (summary_file j)
        = Some (u ''[Error: Ollama not found]'')"
    using process_summary_batches_skip(1)[OF n] a by simp
  show "Call_summarize_text_chunk j x \<notin> set (new_events w (snd (process_summary_batches e w)))" for x
    by (rule process_summary_batches_skip(2)[OF n])
next
  assume a: "map_of (files w) LECTURE_CLEAN_FILE = Some tx \<and>
    split_text_into_chunks tx 500 = Return segments \<and>
    (\<forall>c \<in> set segments. \<exists>s. summarize_text_chunk e c = Return s) \<and> \<not> stop_event w \<and>
    (\<forall>i < length segments. \<not> stop_before_part e i) \<and> j < length segments"
  let ?w = "os_remove (summary_file j) w"
  have l: "map_of (files ?w) LECTURE_CLEAN_FILE = Some tx"
    using a by (simp add: os_remove_files unit_paths_distinct)
  have n: "\<not> nonempty_file (files ?w) (summary_file j)"
    by (simp add: nonempty_file_def os_remove_files)
  show "Call_summarize_text_chunk j (segments ! j)
        \<in> set (new_events ?w (snd (process_summary_batches e ?w)))"
    using process_summary_batches_done(4)[of ?w tx segments e "length segments" j] l n a
    by (simp add: os_remove_files)
qed

text \<open>
  Claim C4 as stated fails for transcription: a unit whose subprocess exited with code 1
  has an empty file, and the next run of the stage, with nothing deleted, calls the
  collaborator for it again and writes the new text.
\<close>

theorem failed_transcription_is_retried:
  "transcribe_worker failing_worker_env (chunk_file AUDIO_CHUNKS_DIR 0) = Exited 1 (u ''boom'') \<and>
   map_of (files after_failed_transcription) (transcript_file 0) = Some [] \<and>
   Call_transcribe_file 0 (chunk_file AUDIO_CHUNKS_DIR 0)
     \<in> set (new_events after_failed_transcription
                (snd (process_audio_batches quiet_env RECORDING_FILE after_failed_transcription))) \<and>
   map_of (files (snd (process_audio_batches quiet_env RECORDING_FILE after_failed_transcription)))
     (transcript_file 0) = Some (u ''some words'')"
  by (simp add: after_failed_transcription_def failing_worker_env_def eval_defs quiet_env_def
        seven_ceil' new_events_def chunk_file_def)

lemma after_failed_transcription_fields:
  "map_of (files after_failed_transcription) (transcript_file 0) = Some []"
  "map_of (sounds after_failed_transcription) RECORDING_FILE = Some seven_ms_audio"
  "\<not> stop_event after_failed_transcription"
  by (simp_all add: after_failed_transcription_def failing_worker_env_def eval_defs quiet_env_def
        seven_ceil')

lemma after_missing_ollama_fields:
  "map_of (files after_missing_ollama) (summary_file 0) = Some (u ''[Error: Ollama not found]'')"
  "map_of (files after_missing_ollama) LECTURE_CLEAN_FILE = Some (u ''hello world'')"
  "\<not> stop_event after_missing_ollama"
  by (simp_all add: after_missing_ollama_def no_ollama_env_def five_chunk_world_def eval_defs
        quiet_env_def)

lemma seven_ms_chunks:
  assumes "map_of (sounds w) RECORDING_FILE = Some seven_ms_audio"
      and "normalize_effect e seven_ms_audio = Some seven_ms_audio" "\<forall>q. export_error e q = None"
  shows "chunk_audio e RECORDING_FILE w
         = (Return [chunk_file AUDIO_CHUNKS_DIR 0], snd (chunk_audio e RECORDING_FILE w))"
proof -
  have "fst (chunk_audio e RECORDING_FILE w)
        = Return (map (chunk_file AUDIO_CHUNKS_DIR)
                       [0 ..< (length (samples seven_ms_audio) + 30000 - 1) div 30000])"
    by (rule chunk_audio_run[OF assms])
  then have "fst (chunk_audio e RECORDING_FILE w) = Return [chunk_file AUDIO_CHUNKS_DIR 0]"
    by (simp add: seven_ms_audio_def)
  then show ?thesis by (metis prod.collapse)
qed

lemma failure_env_fields:
  "normalize_effect failing_worker_env a = Some a" "export_error failing_worker_env q = None"
  "realtime_stt_installed failing_worker_env"
  "transcribe_worker failing_worker_env p = Exited 1 (u ''boom'')"
  "\<not> stop_before_chunk failing_worker_env i"
  "ollama no_ollama_env x = File_not_found" "\<not> stop_before_part no_ollama_env i"
  by (simp_all add: failing_worker_env_def no_ollama_env_def quiet_env_def)

theorem soft_failures_witness:
  "realtime_stt_installed failing_worker_env \<and>
   (\<forall>out. transcribe_worker failing_worker_env (chunk_file AUDIO_CHUNKS_DIR 0) \<noteq> Exited 0 out) \<and>
   transcribe_file failing_worker_env (chunk_file AUDIO_CHUNKS_DIR 0) = [] \<and>
   fst (chunk_audio failing_worker_env RECORDING_FILE seven_ms_world)
     = Return [chunk_file AUDIO_CHUNKS_DIR 0] \<and>
   \<not> stop_event seven_ms_world \<and> (\<forall>i. \<not> stop_before_chunk failing_worker_env i) \<and>
   \<not> nonempty_file (files seven_ms_world) (transcript_file 0) \<and>
   fst (process_audio_batches failing_worker_env RECORDING_FILE seven_ms_world) = Return True \<and>
   map_of (files (snd (process_audio_batches failing_worker_env RECORDING_FILE seven_ms_world)))
     (transcript_file 0) = Some [] \<and>
   map_of (files after_failed_transcription) (transcript_file 0) = Some [] \<and>
   fst (chunk_audio quiet_env RECORDING_FILE after_failed_transcription)
     = Return [chunk_file AUDIO_CHUNKS_DIR 0] \<and>
   \<not> stop_event after_failed_transcription \<and>
   Call_transcribe_file 0 (chunk_file AUDIO_CHUNKS_DIR 0)
     \<in> set (new_events after_failed_transcription
                (snd (process_audio_batches quiet_env RECORDING_FILE after_failed_transcription))) \<and>
   map_of (files (snd (process_audio_batches quiet_env RECORDING_FILE after_failed_transcription)))
     (transcript_file 0) = Some (u ''some words'') \<and>
   ollama no_ollama_env (summary_prompt (u ''hello world'')) = File_not_found \<and>
   summarize_text_chunk no_ollama_env (u ''hello world'')
     = Return (u ''[Error: Ollama not found]'') \<and>
   map_of (files five_chunk_world) LECTURE_CLEAN_FILE = Some (u ''hello world'') \<and>
   split_text_into_chunks (u ''hello world'') 500 = Return [u ''hello world''] \<and>
   \<not> nonempty_file (files five_chunk_world) (summary_file 0) \<and>
   fst (process_summary_batches no_ollama_env five_chunk_world) = Return True \<and>
   map_of (files (snd (process_summary_batches no_ollama_env five_chunk_world))) (summary_file 0)
     = Some (u ''[Error: Ollama not found]'') \<and>
   map_of (files after_missing_ollama) (summary_file 0) = Some (u ''[Error: Ollama not found]'') \<and>
   map_of (files (snd (process_summary_batches quiet_env after_missing_ollama))) (summary_file 0)
     = Some (u ''[Error: Ollama not found]'') \<and>
   Call_summarize_text_chunk 0 (u ''hello world'')
     \<notin> set (new_events after_missing_ollama
                (snd (process_summary_batches quiet_env after_missing_ollama))) \<and>
   Call_summarize_text_chunk 0 (u ''hello world'')
     \<in> set (new_events (os_remove (summary_file 0) after_missing_ollama)
                (snd (process_summary_batches quiet_env
                        (os_remove (summary_file 0) after_missing_ollama))))"
proof -
  let ?c0 = "chunk_file AUDIO_CHUNKS_DIR 0"
  have m: "map_of (sounds seven_ms_world) RECORDING_FILE = Some seven_ms_audio"
          "\<not> stop_event seven_ms_world"
          "\<not> nonempty_file (files seven_ms_world) (transcript_file 0)"
    by (simp_all add: seven_ms_world_def new_processor_def nonempty_file_def)
  have cf: "chunk_audio failing_worker_env RECORDING_FILE seven_ms_world
            = (Return [?c0], snd (chunk_audio failing_worker_env RECORDING_FILE seven_ms_world))"
    by (rule seven_ms_chunks[OF m(1)]) (simp_all add: failure_env_fields)
  have cq: "chunk_audio quiet_env RECORDING_FILE after_failed_transcription
            = (Return [?c0], snd (chunk_audio quiet_env RECORDING_FILE after_failed_transcription))"
    by (rule seven_ms_chunks[OF after_failed_transcription_fields(2)])
       (simp_all add: quiet_env_fields)
  have cf': "fst (chunk_audio failing_worker_env RECORDING_FILE seven_ms_world) = Return [?c0]"
    by (metis cf fst_conv)
  have cq': "fst (chunk_audio quiet_env RECORDING_FILE after_failed_transcription) = Return [?c0]"
    by (metis cq fst_conv)
  have w: "realtime_stt_installed failing_worker_env"
          "\<forall>out. transcribe_worker failing_worker_env ?c0 \<noteq> Exited 0 out"
          "\<forall>i. \<not> stop_before_chunk failing_worker_env i"
    by (simp_all add: failure_env_fields)
  have o: "ollama no_ollama_env (summary_prompt (u ''hello world'')) = File_not_found"
          "\<forall>i. \<not> stop_before_part no_ollama_env i"
    by (simp_all add: failure_env_fields)
  have q: "\<forall>i. \<not> stop_before_chunk quiet_env i" "\<forall>i. \<not> stop_before_part quiet_env i"
          "\<forall>c. \<exists>s. summarize_text_chunk quiet_env c = Return s"
    by (simp_all add: quiet_env_fields quiet_env_results)
  have n5: "\<not> nonempty_file (files five_chunk_world) (summary_file 0)"
    by (simp add: nonempty_file_def five_chunk_world_fields)
  note f5 = five_chunk_world_fields(4,5) hello_world_segments
  note T1 = soft_failures[where e = failing_worker_env and c = ?c0 and p = RECORDING_FILE
              and w = seven_ms_world and chunks = "[?c0]" and j = 0
              and wc = "snd (chunk_audio failing_worker_env RECORDING_FILE seven_ms_world)"]
  have a1: "transcribe_file failing_worker_env ?c0 = []" using T1 w by blast
  have a2: "fst (process_audio_batches failing_worker_env RECORDING_FILE seven_ms_world) = Return True"
   and a3: "map_of (files (snd (process_audio_batches failing_worker_env RECORDING_FILE seven_ms_world)))
              (transcript_file 0) = Some []"
    using T1 cf m w a1 by simp_all
  note T2 = soft_failures[where e = quiet_env and p = RECORDING_FILE
              and w = after_failed_transcription and chunks = "[?c0]" and j = 0
              and wc = "snd (chunk_audio quiet_env RECORDING_FILE after_failed_transcription)"]
  have b1: "Call_transcribe_file 0 ?c0
     \<in> set (new_events after_failed_transcription
                (snd (process_audio_batches quiet_env RECORDING_FILE after_failed_transcription)))"
   and b2: "map_of (files (snd (process_audio_batches quiet_env RECORDING_FILE after_failed_transcription)))
     (transcript_file 0) = Some (u ''some words'')"
    using T2 cq after_failed_transcription_fields q by (simp_all add: quiet_env_results)
  note T3 = soft_failures[where e = no_ollama_env and c = "u ''hello world''"
              and w = five_chunk_world and tx = "u ''hello world''"
              and segments = "[u ''hello world'']" and j = 0]
  have s1: "summarize_text_chunk no_ollama_env (u ''hello world'')
     = Return (u ''[Error: Ollama not found]'')"
    using T3 o by blast
  have s2: "fst (process_summary_batches no_ollama_env five_chunk_world) = Return True"
   and s3: "map_of (files (snd (process_summary_batches no_ollama_env five_chunk_world))) (summary_file 0)
     = Some (u ''[Error: Ollama not found]'')"
    using T3 f5 o n5 s1 by simp_all
  note T4 = soft_failures[where e = quiet_env and w = after_missing_ollama
              and tx = "u ''hello world''" and segments = "[u ''hello world'']" and j = 0]
  have r1: "map_of (files (snd (process_summary_batches quiet_env after_missing_ollama))) (summary_file 0)
     = Some (u ''[Error: Ollama not found]'')"
   and r2: "Call_summarize_text_chunk 0 (u ''hello world'')
     \<notin> set (new_events after_missing_ollama
                (snd (process_summary_batches quiet_env after_missing_ollama)))"
    using T4 after_missing_ollama_fields(1) by simp_all
  have r3: "Call_summarize_text_chunk 0 (u ''hello world'')
     \<in> set (new_events (os_remove (summary_file 0) after_missing_ollama)
                (snd (process_summary_batches quiet_env
                        (os_remove (summary_file 0) after_missing_ollama))))"
    using T4 after_missing_ollama_fields(2,3) hello_world_segments q by simp
  show ?thesis
    using w(1,2) a1 cf' m(2) w(3) m(3) a2 a3 after_failed_transcription_fields(1) cq'
      after_failed_transcription_fields(3) b1 b2 o(1) s1 f5(1) hello_world_segments n5 s2 s3
      after_missing_ollama_fields(1) r1 r2 r3
    by blast
qed

section \<open>Unit names and the order of sorting\<close>

lemma fmt03d_three:
  assumes "n < 1000"
  shows "fmt03d n = [48 + n div 100, 48 + (n div 10) mod 10, 48 + n mod 10]"
proof -
  consider "n < 10" | "10 \<le> n" "n < 100" | "100 \<le> n" by linarith
  then show ?thesis
  proof cases
    case 1
    then show ?thesis by (simp add: fmt03d_small)
  next
    case 2
    then have "n div 10 < 10" by simp
    then have "str_nat n = [48 + n div 10, 48 + n mod 10]"
      using 2 by (simp add: str_nat.simps[of n] str_nat.simps[of "n div 10"])
    then show ?thesis using 2 by (simp add: fmt03d_def)
  next
    case 3
    have a: "\<not> n div 10 < 10" using 3 by simp
    have b: "n div 10 div 10 < 10" using assms by simp
    have "str_nat n = [48 + n div 10 div 10, 48 + (n div 10) mod 10, 48 + n mod 10]"
      using 3 a b
      by (simp add: str_nat.simps[of n] str_nat.simps[of "n div 10"]
            str_nat.simps[of "n div 10 div 10"])
    then show ?thesis by (simp add: fmt03d_def div_mult2_eq)
  qed
qed

lemma digits_split:
  fixes n :: nat
  obtains a b c where "n = 100 * a + 10 * b + c" "b < 10" "c < 10"
    "a = n div 100" "b = (n div 10) mod 10" "c = n mod 10"
proof -
  have 1: "n = (n div 10) * 10 + n mod 10" by simp
  have 2: "n div 10 = (n div 10 div 10) * 10 + (n div 10) mod 10" by simp
  have 3: "n div 10 div 10 = n div 100" by (simp add: div_mult2_eq)
  define a where "a = n div 100"
  define b where "b = (n div 10) mod 10"
  define c where "c = n mod 10"
  define q where "q = n div 10"
  have q: "q = a * 10 + b" using 2 3 by (simp add: a_def b_def q_def)
  have n: "n = q * 10 + c" using 1 by (simp add: q_def c_def)
  have "n = 100 * a + 10 * b + c" unfolding n q by simp
  moreover have "b < 10" "c < 10" by (simp_all add: b_def c_def)
  ultimately show ?thesis using that a_def b_def c_def by blast
qed

lemma unit_file_mono:
  assumes "i < j" "j < 1000"
  shows "transcript_file i < transcript_file j" "summary_file i < summary_file j"
proof -
  obtain a b c where i: "i = 100 * a + 10 * b + c" "b < 10" "c < 10"
    and ia: "a = i div 100" "b = (i div 10) mod 10" "c = i mod 10"
    by (rule digits_split)
  obtain a' b' c' where j: "j = 100 * a' + 10 * b' + c'" "b' < 10" "c' < 10"
    and ja: "a' = j div 100" "b' = (j div 10) mod 10" "c' = j mod 10"
    by (rule digits_split)
  have d: "a < a' \<or> a = a' \<and> (b < b' \<or> b = b' \<and> c < c')"
    using assms(1) i(2,3) j(2,3) unfolding i(1) j(1) by linarith
  have f: "fmt03d i = [48 + a, 48 + b, 48 + c]" "fmt03d j = [48 + a', 48 + b', 48 + c']"
    using assms fmt03d_three[of i] fmt03d_three[of j] ia ja by simp_all
  show "transcript_file i < transcript_file j"
    unfolding transcript_file_eq f using d by (auto simp: u_def)
  show "summary_file i < summary_file j"
    unfolding summary_file_eq f using d by (auto simp: u_def)
qed

lemma sorted_unit_files:
  assumes "n \<le> 1000"
  shows "sorted (map transcript_file [0 ..< n])" "sorted (map summary_file [0 ..< n])"
proof -
  have "transcript_file i \<le> transcript_file j \<and> summary_file i \<le> summary_file j"
    if "i \<le> j" "j < n" for i j
  proof (cases "i = j")
    case True
    then show ?thesis by simp
  next
    case False
    then have "i < j" "j < 1000" using that assms by simp_all
    then show ?thesis using unit_file_mono[of i j] by (simp add: less_imp_le)
  qed
  then show "sorted (map transcript_file [0 ..< n])" "sorted (map summary_file [0 ..< n])"
    by (simp_all add: sorted_iff_nth_mono)
qed

lemma unit_files_sort_below_1000:
  "n \<le> 1000 \<Longrightarrow> sort (map transcript_file [0 ..< n]) = map transcript_file [0 ..< n]"
  "n \<le> 1000 \<Longrightarrow> sort (map summary_file [0 ..< n]) = map summary_file [0 ..< n]"
  by (simp_all add: sorted_unit_files sorted_sort_id)

lemma fmt03d_values: "fmt03d 1000 = u ''1000''" "fmt03d 101 = u ''101''" "fmt03d 100 = u ''100''"
  by (simp_all add: fmt03d_def str_nat.simps u_def)

lemma unit_1000_before_101:
  "transcript_file 1000 < transcript_file 101" "summary_file 1000 < summary_file 101"
  by (simp_all add: transcript_file_eq summary_file_eq fmt03d_values u_def)

lemma not_sorted_1001:
  assumes "f 1000 < f (101::nat)"
  shows "sort (map f [0 ..< 1001]) \<noteq> map (f :: nat \<Rightarrow> pystr) [0 ..< 1001]"
proof
  assume "sort (map f [0 ..< 1001]) = map f [0 ..< 1001]"
  then have "sorted (map f [0 ..< 1001])" by (metis sorted_sort)
  then have "map f [0 ..< 1001] ! 101 \<le> map f [0 ..< 1001] ! 1000"
    by (rule sorted_nth_mono) simp_all
  then have "f 101 \<le> f 1000" by (simp del: upt_Suc)
  then show False using assms by simp
qed

text \<open>
  Claim C8 on the code. The format \<open>{i:03d}\<close> pads to a width of at least three, so
  unit 1000 is named \<open>batch_1000.txt\<close>, which sorts before \<open>batch_101.txt\<close>: with 1001
  units the sorted list of unit names is not the list in index order, for the
  transcripts and for the summaries alike, and a merge over the units 100, 101 and 1000
  puts the text of unit 1000 before that of unit 101. (Up to 1000 units the sorted
  order is the index order: \<open>unit_files_sort_below_1000\<close>.)
\<close>

theorem unit_names_beyond_999:
  "fmt03d 1000 = u ''1000'' \<and>
   transcript_file 1000 < transcript_file 101 \<and>
   sort (map transcript_file [0 ..< 1001]) \<noteq> map transcript_file [0 ..< 1001] \<and>
   summary_file 1000 < summary_file 101 \<and>
   sort (map summary_file [0 ..< 1001]) \<noteq> map summary_file [0 ..< 1001] \<and>
   transcript_paths (files long_lecture_world)
     = [transcript_file 100, transcript_file 1000, transcript_file 101] \<and>
   merged_text (files long_lecture_world) = u ''a c b''"
proof -
  have p: "transcript_paths (files long_lecture_world)
     = [transcript_file 100, transcript_file 1000, transcript_file 101]"
    by (simp add: transcript_paths_def listdir_def long_lecture_world_def new_processor_def
          transcript_file_eq TRANSCRIPT_DIR_def path_join_def fmt03d_values u_def)
  have m: "map_of (files long_lecture_world) (transcript_file 100) = Some (u ''a'')"
          "map_of (files long_lecture_world) (transcript_file 101) = Some (u ''b'')"
          "map_of (files long_lecture_world) (transcript_file 1000) = Some (u ''c'')"
    by (simp_all add: long_lecture_world_def new_processor_def transcript_file_inj)
  have t: "merged_text (files long_lecture_world) = u ''a c b''"
    unfolding merged_text_def p by (simp add: m strip_def isspace_def u_def)
  show ?thesis
    using fmt03d_values(1) unit_1000_before_101 not_sorted_1001[OF unit_1000_before_101(1)]
      not_sorted_1001[OF unit_1000_before_101(2)] p t
    by blast
qed

section \<open>A processor that was stopped\<close>









end
